theory Spec2Isabelle
  imports Complex_Main "HOL-Library.Log_Nat"
begin

section \<open>Python values and exceptions\<close>

text \<open>
  The program is a Python script that composes an image with PIL.  Exceptions are
  values of the type \<open>error\<close>; a computation that may raise returns \<open>error + 'a\<close>
  with \<open>Inl\<close> for the exception.  Strings are lists of characters, read as ASCII.
\<close>

datatype error =
    KeyError | IndexError | TypeError | ValueError
  | FileNotFoundError | JSONDecodeError | OSError | OtherError string

subsection \<open>\<open>int(s, 16)\<close>\<close>

text \<open>
  Python's \<open>int(s, 16)\<close> skips surrounding white space (in an ASCII string the
  characters 9 to 13 and the blank, 32), reads an optional sign, an
  optional \<open>0x\<close> prefix (after which one underscore may stand) and then hexadecimal
  digits, where single underscores may separate digits.  Anything else raises
  \<open>ValueError\<close>.
\<close>

definition py_isspace :: "char \<Rightarrow> bool" where
  "py_isspace c = (let n = (of_char c :: nat) in (9 \<le> n \<and> n \<le> 13) \<or> n = 32)"

definition digit_value :: "char \<Rightarrow> int option" where
  "digit_value c =
     (let n = (of_char c :: int) in
      if 48 \<le> n \<and> n \<le> 57 then Some (n - 48)
      else if 97 \<le> n \<and> n \<le> 102 then Some (n - 87)
      else if 65 \<le> n \<and> n \<le> 70 then Some (n - 55)
      else None)"

fun scan_digits :: "int \<Rightarrow> string \<Rightarrow> (int \<times> string) option" where
  "scan_digits acc [] = Some (acc, [])"
| "scan_digits acc (c # cs) =
     (case digit_value c of
        Some v \<Rightarrow> scan_digits (16 * acc + v) cs
      | None \<Rightarrow>
          if c = CHR ''_'' then
            (case cs of
               [] \<Rightarrow> None
             | d # ds \<Rightarrow>
                 (case digit_value d of
                    Some v \<Rightarrow> scan_digits (16 * acc + v) ds
                  | None \<Rightarrow> None))
          else Some (acc, c # cs))"

definition skip_prefix :: "string \<Rightarrow> string" where
  "skip_prefix s =
     (case s of
        c0 # c1 # rest \<Rightarrow>
          if c0 = CHR ''0'' \<and> (c1 = CHR ''x'' \<or> c1 = CHR ''X'') then
            (case rest of
               u # rest' \<Rightarrow> if u = CHR ''_'' then rest' else rest
             | [] \<Rightarrow> rest)
          else s
      | _ \<Rightarrow> s)"

definition py_int16 :: "string \<Rightarrow> error + int" where
  "py_int16 s =
     (let s1 = dropWhile py_isspace s;
          (sign, s2) =
            (case s1 of
               c # cs \<Rightarrow>
                 if c = CHR ''+'' then (1, cs)
                 else if c = CHR ''-'' then (- 1, cs)
                 else (1, s1)
             | [] \<Rightarrow> (1, s1));
          s3 = skip_prefix s2
      in case s3 of
           [] \<Rightarrow> Inl ValueError
         | c # cs \<Rightarrow>
             (case digit_value c of
                None \<Rightarrow> Inl ValueError
              | Some v \<Rightarrow>
                  (case scan_digits v cs of
                     None \<Rightarrow> Inl ValueError
                   | Some (n, rest) \<Rightarrow>
                       if dropWhile py_isspace rest = [] then Inr (sign * n)
                       else Inl ValueError)))"

subsection \<open>\<open>hex_to_rgb\<close>\<close>

text \<open>
  \<open>hex_color.lstrip('#')\<close> removes every leading \<open>#\<close>; the three channels are the
  slices \<open>[0:2]\<close>, \<open>[2:4]\<close> and \<open>[4:6]\<close> read in base 16, in this order.
\<close>

definition lstrip_hash :: "string \<Rightarrow> string" where
  "lstrip_hash s = dropWhile (\<lambda>c. c = CHR ''#'') s"

definition slice2 :: "string \<Rightarrow> nat \<Rightarrow> string" where
  "slice2 s i = take 2 (drop i s)"

definition hex_to_rgb :: "string \<Rightarrow> error + (int \<times> int \<times> int)" where
  "hex_to_rgb hex_color =
     (let h = lstrip_hash hex_color in
      case py_int16 (slice2 h 0) of
        Inl e \<Rightarrow> Inl e
      | Inr r \<Rightarrow>
          (case py_int16 (slice2 h 2) of
             Inl e \<Rightarrow> Inl e
           | Inr g \<Rightarrow>
               (case py_int16 (slice2 h 4) of
                  Inl e \<Rightarrow> Inl e
                | Inr b \<Rightarrow> Inr (r, g, b))))"

section \<open>Python floats\<close>

text \<open>
  A Python \<open>float\<close> is an IEEE 754 binary64 number.  A finite float is modelled by the
  rational it denotes, and every arithmetic operation returns the exact result rounded
  to the nearest number with a 53 bit significand, ties to even (\<open>fl\<close>).  The exponent
  is not bounded in the model: it agrees with binary64 as long as the magnitudes stay
  between \<open>2^-1022\<close> and \<open>2^1024\<close>, which the theorems below ensure by bounding
  their inputs.
\<close>

definition ilog2 :: "rat \<Rightarrow> int" where
  "ilog2 x = (let (p, q) = quotient_of x; l = bitlen p - bitlen q
              in if 2 powi l \<le> x then l else l - 1)"

definition round_half_even :: "rat \<Rightarrow> int" where
  "round_half_even r =
     (let f = \<lfloor>r\<rfloor>; d = r - of_int f
      in if d < 1 / 2 then f else if 1 / 2 < d then f + 1
         else if even f then f else f + 1)"

definition fl :: "rat \<Rightarrow> rat" where
  "fl x = (if x = 0 then 0
           else let u = 2 powi (ilog2 \<bar>x\<bar> - 52)
                in of_int (round_half_even (x / u)) * u)"

definition eps :: rat where
  "eps = 1 / 2 ^ 53"

definition py_float :: "int \<Rightarrow> rat" where
  "py_float n = fl (of_int n)"

definition fadd :: "rat \<Rightarrow> rat \<Rightarrow> rat" where
  "fadd x y = fl (x + y)"

definition fsub :: "rat \<Rightarrow> rat \<Rightarrow> rat" where
  "fsub x y = fl (x - y)"

definition fmul :: "rat \<Rightarrow> rat \<Rightarrow> rat" where
  "fmul x y = fl (x * y)"

definition fdiv :: "rat \<Rightarrow> rat \<Rightarrow> rat" where
  "fdiv x y = fl (x / y)"

text \<open>\<open>int(x)\<close> of a float truncates towards zero.\<close>

definition py_int :: "rat \<Rightarrow> int" where
  "py_int x = (if 0 \<le> x then \<lfloor>x\<rfloor> else \<lceil>x\<rceil>)"

text \<open>
  \<open>math.radians(x)\<close> multiplies by the double nearest to \<open>pi / 180\<close>, computed from
  the double nearest to \<open>pi\<close>.  \<open>math.cos\<close> and \<open>math.sin\<close> are the platform's, and are
  parameters of the environment below.
\<close>

definition pi_double :: rat where
  "pi_double = 884279719003555 / 281474976710656"

definition radians :: "rat \<Rightarrow> rat" where
  "radians x = fmul x (fdiv pi_double 180)"

section \<open>The canvas\<close>

text \<open>
  The canvas is modelled by the sequence of calls the program makes on PIL's drawing
  interface, in the order it makes them; what PIL paints for a call is outside the model.
\<close>

datatype colour = RGB int int int | Named string

type_synonym font = "string \<times> int"

record image =
  im_source :: string
  im_mode :: string
  im_size :: "int \<times> int"

datatype draw_op =
    Line "int \<times> int" "int \<times> int" colour int
  | Ellipse rat rat rat rat colour
  | Rectangle int int int int colour colour
  | Text "int \<times> int" string font colour
  | Paste image "int \<times> int" "image option"

type_synonym canvas = "draw_op list"

section \<open>JSON values\<close>

text \<open>
  What \<open>json.load\<close> returns.  An object is the list of its items, with distinct keys.
\<close>

datatype json =
    JNull | JBool bool | JNum rat | JStr string
  | JArr "json list" | JObj "(string \<times> json) list"

text \<open>\<open>v[key]\<close> for a string key, and the elements a \<open>for\<close> loop over \<open>v\<close> visits.\<close>

fun py_getitem :: "json \<Rightarrow> string \<Rightarrow> error + json" where
  "py_getitem (JObj items) key =
     (case map_of items key of None \<Rightarrow> Inl KeyError | Some v \<Rightarrow> Inr v)"
| "py_getitem v key = Inl TypeError"

fun py_iter :: "json \<Rightarrow> error + json list" where
  "py_iter (JArr xs) = Inr xs"
| "py_iter (JStr s) = Inr (map (\<lambda>c. JStr [c]) s)"
| "py_iter (JObj items) = Inr (map (\<lambda>kv. JStr (fst kv)) items)"
| "py_iter v = Inl TypeError"

section \<open>The environment\<close>

text \<open>
  The files and libraries the program reads: the outcome of opening and parsing a JSON
  file, whether a font file loads, the outcome of opening an image file, the size PIL's
  \<open>thumbnail\<close> gives an image of a given size within a given bound, the outcome of
  saving to a path, and the platform's cosine and sine on doubles.
\<close>

record env =
  read_json :: "string \<Rightarrow> error + json"
  truetype :: "string \<Rightarrow> bool"
  image_open :: "string \<Rightarrow> error + image"
  thumbnail_size :: "int \<times> int \<Rightarrow> int \<times> int \<Rightarrow> int \<times> int"
  save_image :: "string \<Rightarrow> error option"
  m_cos :: "rat \<Rightarrow> rat"
  m_sin :: "rat \<Rightarrow> rat"

definition convert :: "image \<Rightarrow> string \<Rightarrow> image" where
  "convert im mode = im\<lparr>im_mode := mode\<rparr>"

definition resize :: "image \<Rightarrow> int \<times> int \<Rightarrow> image" where
  "resize im new_size = im\<lparr>im_size := new_size\<rparr>"

definition thumbnail :: "env \<Rightarrow> image \<Rightarrow> int \<times> int \<Rightarrow> image" where
  "thumbnail e im bound = im\<lparr>im_size := thumbnail_size e (im_size im) bound\<rparr>"

section \<open>\<open>draw_gradient\<close>\<close>

text \<open>
  The body of the loop over the rows \<open>range(height)\<close>: the blend factor of row \<open>i\<close>, in
  which \<open>float(i) / height\<close> divides two doubles, each channel through \<open>int\<close>, and the line
  drawn for the row.
\<close>

definition blend :: "int \<Rightarrow> int \<Rightarrow> rat" where
  "blend height i =
     (if i \<le> height div 2 then fmul (fdiv (py_float i) (py_float height)) 2
      else fsub 2 (fmul (fdiv (py_float i) (py_float height)) 2))"

definition channel :: "int \<Rightarrow> int \<Rightarrow> int \<Rightarrow> int \<Rightarrow> int" where
  "channel height i top_j bottom_j =
     py_int (fadd (fmul (py_float top_j) (fsub 1 (blend height i)))
                  (fmul (py_float bottom_j) (blend height i)))"

definition gradient_color ::
  "int \<Rightarrow> int \<Rightarrow> int \<times> int \<times> int \<Rightarrow> int \<times> int \<times> int \<Rightarrow> colour" where
  "gradient_color height i top_color bottom_color =
     (case (top_color, bottom_color) of
        ((tr, tg, tb), (br, bg, bb)) \<Rightarrow>
          RGB (channel height i tr br) (channel height i tg bg) (channel height i tb bb))"

fun gradient_rows ::
  "canvas \<Rightarrow> int \<Rightarrow> int \<Rightarrow> int \<times> int \<times> int \<Rightarrow> int \<times> int \<times> int \<Rightarrow> int list \<Rightarrow> canvas" where
  "gradient_rows d width height top_color bottom_color [] = d"
| "gradient_rows d width height top_color bottom_color (i # rows) =
     gradient_rows
       (d @ [Line (0, i) (width, i) (gradient_color height i top_color bottom_color) 1])
       width height top_color bottom_color rows"

definition draw_gradient ::
  "canvas \<Rightarrow> int \<Rightarrow> int \<Rightarrow> int \<times> int \<times> int \<Rightarrow> int \<times> int \<times> int \<Rightarrow> canvas" where
  "draw_gradient d width height top_color bottom_color =
     gradient_rows d width height top_color bottom_color [0..height - 1]"

text \<open>
  The gradient as the specification words it: the blend factor and the interpolation
  in exact arithmetic, each channel rounded to the nearest integer.
\<close>

definition spec_blend :: "int \<Rightarrow> int \<Rightarrow> rat" where
  "spec_blend height i =
     (if of_int i \<le> (of_int height :: rat) / 2 then 2 * of_int i / of_int height
      else 2 - 2 * of_int i / of_int height)"

definition spec_channel :: "int \<Rightarrow> int \<Rightarrow> int \<Rightarrow> int \<Rightarrow> int" where
  "spec_channel height i top_j bottom_j =
     round_half_even
       (of_int top_j * (1 - spec_blend height i) + of_int bottom_j * spec_blend height i)"

section \<open>\<open>draw_flower\<close>\<close>

text \<open>
  Every coordinate of an ellipse is a double: \<open>x - outer_radius + dx\<close> is
  \<open>(x - outer_radius) + dx\<close> with each operation rounded, and \<open>360 / petals\<close> is the
  quotient of two integers as a double.
\<close>

definition petal :: "env \<Rightarrow> int \<Rightarrow> int \<Rightarrow> rat \<Rightarrow> rat \<Rightarrow> int \<Rightarrow> int \<Rightarrow> draw_op" where
  "petal e x y inner_radius outer_radius petals i =
     (let angle = radians (fmul (py_float i) (fdiv (py_float 360) (py_float petals)));
          dx = fmul inner_radius (m_cos e angle);
          dy = fmul inner_radius (m_sin e angle)
      in Ellipse (fadd (fsub (py_float x) outer_radius) dx)
                 (fadd (fsub (py_float y) outer_radius) dy)
                 (fadd (fadd (py_float x) outer_radius) dx)
                 (fadd (fadd (py_float y) outer_radius) dy)
                 (Named ''pink''))"

fun petal_loop ::
  "env \<Rightarrow> canvas \<Rightarrow> int \<Rightarrow> int \<Rightarrow> rat \<Rightarrow> rat \<Rightarrow> int \<Rightarrow> int list \<Rightarrow> canvas" where
  "petal_loop e d x y inner_radius outer_radius petals [] = d"
| "petal_loop e d x y inner_radius outer_radius petals (i # rest) =
     petal_loop e (d @ [petal e x y inner_radius outer_radius petals i]) x y
       inner_radius outer_radius petals rest"

definition draw_flower :: "env \<Rightarrow> canvas \<Rightarrow> int \<Rightarrow> int \<Rightarrow> rat \<Rightarrow> canvas" where
  "draw_flower e d x y scale =
     (let petals = 5;
          inner_radius = fmul 10 scale;
          outer_radius = fmul 30 scale;
          d1 = petal_loop e d x y inner_radius outer_radius petals [0..petals - 1]
      in d1 @ [Ellipse (fsub (py_float x) inner_radius) (fsub (py_float y) inner_radius)
                       (fadd (py_float x) inner_radius) (fadd (py_float y) inner_radius)
                       (Named ''yellow'')])"

section \<open>\<open>draw_table\<close>\<close>

text \<open>
  One pass of the loop over the cells of a row, the header row included: the rectangle's
  corners are computed first, and \<open>col_widths[col_idx]\<close> raises \<open>IndexError\<close> before
  anything is drawn for the cell; \<open>draw.text\<close> takes a string.
\<close>

fun draw_cells ::
  "canvas \<Rightarrow> int \<Rightarrow> int \<Rightarrow> int list \<Rightarrow> int \<Rightarrow> font \<Rightarrow> (nat \<Rightarrow> colour) \<Rightarrow> nat \<Rightarrow> json list
   \<Rightarrow> canvas \<times> error option" where
  "draw_cells d top_left_x y_offset col_widths row_height fnt fill col_idx [] = (d, None)"
| "draw_cells d top_left_x y_offset col_widths row_height fnt fill col_idx (cell # cells) =
     (let x_offset = top_left_x + sum_list (take col_idx col_widths) in
      if length col_widths \<le> col_idx then (d, Some IndexError)
      else
        let d1 = d @ [Rectangle x_offset y_offset (x_offset + col_widths ! col_idx)
                        (y_offset + row_height) (fill col_idx) (Named ''black'')]
        in case cell of
             JStr s \<Rightarrow>
               draw_cells (d1 @ [Text (x_offset + 10, y_offset + 10) s fnt (Named ''black'')])
                 top_left_x y_offset col_widths row_height fnt fill (Suc col_idx) cells
           | _ \<Rightarrow> (d1, Some TypeError))"

definition header_fill :: "nat \<Rightarrow> colour" where
  "header_fill col_idx = Named ''#FFD700''"

definition data_fill :: "nat \<Rightarrow> colour" where
  "data_fill col_idx = (if col_idx mod 2 = 0 then Named ''#E6E6FA'' else Named ''#98FB98'')"

fun draw_rows ::
  "canvas \<Rightarrow> int \<Rightarrow> int \<Rightarrow> int list \<Rightarrow> int \<Rightarrow> font \<Rightarrow> json list \<Rightarrow> canvas \<times> error option" where
  "draw_rows d top_left_x y_offset col_widths row_height fnt [] = (d, None)"
| "draw_rows d top_left_x y_offset col_widths row_height fnt (row # rows) =
     (case py_iter row of
        Inl e \<Rightarrow> (d, Some e)
      | Inr cells \<Rightarrow>
          (case draw_cells d top_left_x y_offset col_widths row_height fnt data_fill 0 cells of
             (d1, Some e) \<Rightarrow> (d1, Some e)
           | (d1, None) \<Rightarrow>
               draw_rows d1 top_left_x (y_offset + row_height) col_widths row_height fnt rows))"

definition draw_table ::
  "env \<Rightarrow> canvas \<Rightarrow> int \<Rightarrow> int \<Rightarrow> json \<Rightarrow> int list \<Rightarrow> int \<Rightarrow> string \<Rightarrow> canvas \<times> error option" where
  "draw_table e d top_left_x top_left_y table_data col_widths row_height font_path =
     (if \<not> truetype e font_path then (d, Some OSError)
      else
        let fnt = (font_path, 16); y_offset = top_left_y in
        case py_getitem table_data ''columns'' of
          Inl err \<Rightarrow> (d, Some err)
        | Inr columns \<Rightarrow>
            (case py_iter columns of
               Inl err \<Rightarrow> (d, Some err)
             | Inr cols \<Rightarrow>
                 (case draw_cells d top_left_x y_offset col_widths row_height fnt
                         header_fill 0 cols of
                    (d1, Some err) \<Rightarrow> (d1, Some err)
                  | (d1, None) \<Rightarrow>
                      (case py_getitem table_data ''data'' of
                         Inl err \<Rightarrow> (d1, Some err)
                       | Inr data \<Rightarrow>
                           (case py_iter data of
                              Inl err \<Rightarrow> (d1, Some err)
                            | Inr rows \<Rightarrow>
                                draw_rows d1 top_left_x (y_offset + row_height) col_widths
                                  row_height fnt rows)))))"

text \<open>
  The table as the specification words it: column \<open>c\<close> starts at the anchor's x plus the
  widths of the columns before it, the header is row 0 and data row \<open>r\<close> is row \<open>r + 1\<close>,
  each row \<open>row_height\<close> below the one before.
\<close>

definition spec_cell ::
  "int \<Rightarrow> int \<Rightarrow> int list \<Rightarrow> int \<Rightarrow> font \<Rightarrow> (nat \<Rightarrow> colour) \<Rightarrow> nat \<Rightarrow> nat \<times> string \<Rightarrow> draw_op list" where
  "spec_cell anchor_x anchor_y col_widths row_height fnt fill r cs =
     (let c = fst cs;
          x = anchor_x + sum_list (take c col_widths);
          y = anchor_y + int r * row_height
      in [Rectangle x y (x + col_widths ! c) (y + row_height) (fill c) (Named ''black''),
          Text (x + 10, y + 10) (snd cs) fnt (Named ''black'')])"

definition spec_row ::
  "int \<Rightarrow> int \<Rightarrow> int list \<Rightarrow> int \<Rightarrow> font \<Rightarrow> (nat \<Rightarrow> colour) \<Rightarrow> nat \<Rightarrow> string list \<Rightarrow> draw_op list" where
  "spec_row anchor_x anchor_y col_widths row_height fnt fill r cells =
     concat (map (spec_cell anchor_x anchor_y col_widths row_height fnt fill r)
               (enumerate 0 cells))"

definition spec_table ::
  "int \<Rightarrow> int \<Rightarrow> int list \<Rightarrow> int \<Rightarrow> font \<Rightarrow> string list \<Rightarrow> string list list \<Rightarrow> draw_op list" where
  "spec_table anchor_x anchor_y col_widths row_height fnt cols rows =
     spec_row anchor_x anchor_y col_widths row_height fnt header_fill 0 cols
     @ concat (map (\<lambda>rr. spec_row anchor_x anchor_y col_widths row_height fnt data_fill
                            (Suc (fst rr)) (snd rr))
                 (enumerate 0 rows))"

text \<open>The record set of the specification, as a JSON value.\<close>

definition record_set :: "string list \<Rightarrow> string list list \<Rightarrow> json" where
  "record_set cols rows =
     JObj [(''columns'', JArr (map JStr cols)),
           (''data'', JArr (map (\<lambda>row. JArr (map JStr row)) rows))]"

fun fits :: "nat \<Rightarrow> string list list \<Rightarrow> bool" where
  "fits n [] = True"
| "fits n (row # rows) = (length row \<le> n \<and> fits n rows)"

section \<open>\<open>load_json_file\<close>\<close>

text \<open>
  The two handled exceptions print a line and return the empty dictionary; any other
  exception of \<open>open\<close> or \<open>json.load\<close> propagates.  The result is the printed lines and
  the value or the exception.
\<close>

definition load_json_file :: "env \<Rightarrow> string \<Rightarrow> string list \<times> (error + json)" where
  "load_json_file e filepath =
     (case read_json e filepath of
        Inr data \<Rightarrow> ([], Inr data)
      | Inl err \<Rightarrow>
          if err = FileNotFoundError then ([''The file was not found.''], Inr (JObj []))
          else if err = JSONDecodeError then
            ([''The file is not a valid JSON file.''], Inr (JObj []))
          else ([], Inl err))"

section \<open>\<open>create_composite_image_with_gradient\<close>\<close>

text \<open>The layout constants of the procedure, in the order it computes them.\<close>

definition width :: int where
  "width = 692"

definition height :: int where
  "height = 982"

definition margin :: int where
  "margin = 35"

definition flower_scale :: rat where
  "flower_scale = 3 / 2"

definition outer_radius :: int where
  "outer_radius = py_int (fmul 30 flower_scale)"

definition logo_size :: int where
  "logo_size = 180"

definition logo_position :: "int \<times> int" where
  "logo_position =
     (width div 2 - logo_size div 2, margin + outer_radius - logo_size div 2)"

definition top_space :: int where
  "top_space = margin * 2 + py_int (fmul (py_float outer_radius) flower_scale)"

definition placeholder_size :: "int \<times> int" where
  "placeholder_size = (300, 168)"

definition element_positions :: "(int \<times> int) list" where
  "element_positions =
     [(margin, top_space),
      (margin, top_space + snd placeholder_size + margin),
      (width - margin - fst placeholder_size, top_space),
      (width - margin - fst placeholder_size, top_space + snd placeholder_size + margin)]"

definition col_widths :: "int list" where
  "col_widths = [200, 350]"

definition row_height :: int where
  "row_height = 40"

definition table_top_left_x :: int where
  "table_top_left_x = (width - sum_list col_widths) div 2"

text \<open>\<open>max\<close> of a sequence raises \<open>ValueError\<close> on the empty one.\<close>

definition py_max :: "int list \<Rightarrow> error + int" where
  "py_max xs = (case xs of [] \<Rightarrow> Inl ValueError | x # rest \<Rightarrow> Inr (fold max rest x))"

definition table_top_left_y :: "error + int" where
  "table_top_left_y =
     (case py_max (map (\<lambda>pos. snd pos + snd placeholder_size) element_positions) of
        Inl err \<Rightarrow> Inl err
      | Inr m \<Rightarrow> Inr (m + margin))"

text \<open>
  The loop over the four placeholders: each image is opened, converted, resized to the
  slot size and pasted without a mask; the first image that does not open ends the run.
\<close>

fun paste_placeholders ::
  "env \<Rightarrow> canvas \<Rightarrow> ((int \<times> int) \<times> string) list \<Rightarrow> canvas \<times> error option" where
  "paste_placeholders e d [] = (d, None)"
| "paste_placeholders e d ((position, img_path) # rest) =
     (case image_open e img_path of
        Inl err \<Rightarrow> (d, Some err)
      | Inr im \<Rightarrow>
          paste_placeholders e
            (d @ [Paste (resize (convert im ''RGBA'') placeholder_size) position None]) rest)"

text \<open>
  A run ends with the calls made on the canvas, the lines printed, and the path of the
  saved file or the exception that ended it.  The canvas is saved only in the last step.
\<close>

record outcome =
  drawn :: canvas
  printed :: "string list"
  result :: "error + string"

definition create_composite_image_with_gradient ::
  "env \<Rightarrow> string \<Rightarrow> string \<Rightarrow> string \<Rightarrow> string \<Rightarrow> string \<Rightarrow> string \<Rightarrow> string \<Rightarrow> string
   \<Rightarrow> outcome" where
  "create_composite_image_with_gradient e logo_path path_img1 path_img2 path_img3 path_img4
     path_out font_path filepath =
     (case hex_to_rgb ''accbf2'' of
        Inl err \<Rightarrow> \<lparr>drawn = [], printed = [], result = Inl err\<rparr>
      | Inr blue \<Rightarrow>
     (case hex_to_rgb ''fd9965'' of
        Inl err \<Rightarrow> \<lparr>drawn = [], printed = [], result = Inl err\<rparr>
      | Inr orange \<Rightarrow>
     (let d1 = draw_gradient [] width height blue orange;
          d2 = draw_flower e d1 (margin + outer_radius) (margin + outer_radius) flower_scale;
          d3 = draw_flower e d2 (width - margin - outer_radius) (margin + outer_radius)
                 flower_scale
      in case image_open e logo_path of
           Inl err \<Rightarrow> \<lparr>drawn = d3, printed = [], result = Inl err\<rparr>
         | Inr im \<Rightarrow>
     (let logo = thumbnail e (convert im ''RGBA'') (logo_size, logo_size);
          d4 = d3 @ [Paste logo logo_position (Some logo)];
          image_paths = [path_img1, path_img2, path_img3, path_img4]
      in case paste_placeholders e d4 (zip element_positions image_paths) of
           (d5, Some err) \<Rightarrow> \<lparr>drawn = d5, printed = [], result = Inl err\<rparr>
         | (d5, None) \<Rightarrow>
     (case table_top_left_y of
        Inl err \<Rightarrow> \<lparr>drawn = d5, printed = [], result = Inl err\<rparr>
      | Inr top_left_y \<Rightarrow>
     (case load_json_file e filepath of
        (out, Inl err) \<Rightarrow> \<lparr>drawn = d5, printed = out, result = Inl err\<rparr>
      | (out, Inr table_data) \<Rightarrow>
     (case draw_table e d5 table_top_left_x top_left_y table_data col_widths
             row_height font_path of
        (d6, Some err) \<Rightarrow> \<lparr>drawn = d6, printed = out, result = Inl err\<rparr>
      | (d6, None) \<Rightarrow>
     (let output_path = path_out @ ''/gradient_flowers_composite_image.png''
      in case save_image e output_path of
           Some err \<Rightarrow> \<lparr>drawn = d6, printed = out, result = Inl err\<rparr>
         | None \<Rightarrow> \<lparr>drawn = d6, printed = out, result = Inr output_path\<rparr>))))))))"

definition main :: "env \<Rightarrow> string \<Rightarrow> outcome" where
  "main e current_directory =
     (let path_img1 = current_directory @ ''/images/1.png'';
          path_img2 = current_directory @ ''/images/2.png'';
          path_img3 = current_directory @ ''/images/3.png'';
          path_img4 = current_directory @ ''/images/4.png'';
          path_out = current_directory;
          logo_path = current_directory @ ''/images/front_image.png'';
          font_path = current_directory @ ''/font/Comic Sans MS Bold.ttf'';
          filepath = current_directory @ ''/data/data.json'';
          r = create_composite_image_with_gradient e logo_path path_img1 path_img2
                path_img3 path_img4 path_out font_path filepath
      in case result r of
           Inl err \<Rightarrow> r
         | Inr image_path \<Rightarrow>
             r\<lparr>printed := printed r @ [''The image has been saved to: '' @ image_path]\<rparr>)"

text \<open>
  The columns of the canvas a list of calls frames: the least left edge and the greatest
  right edge of its rectangles, if it has one.
\<close>

fun extend :: "(int \<times> int) option \<Rightarrow> draw_op \<Rightarrow> (int \<times> int) option" where
  "extend None (Rectangle x0 y0 x1 y1 fill_c outline_c) = Some (x0, x1)"
| "extend (Some (lo, hi)) (Rectangle x0 y0 x1 y1 fill_c outline_c) = Some (min lo x0, max hi x1)"
| "extend acc op = acc"

definition x_extent :: "draw_op list \<Rightarrow> (int \<times> int) option" where
  "x_extent ops = foldl extend None ops"

text \<open>
  The region a pasted image of a given size covers, and whether two regions share a
  pixel.
\<close>

definition slot :: "int \<times> int \<Rightarrow> int \<times> int \<times> int \<times> int" where
  "slot pos = (fst pos, snd pos, fst pos + fst placeholder_size, snd pos + snd placeholder_size)"

definition overlap :: "int \<times> int \<times> int \<times> int \<Rightarrow> int \<times> int \<times> int \<times> int \<Rightarrow> bool" where
  "overlap a b =
     (case (a, b) of
        ((ax0, ay0, ax1, ay1), (bx0, by0, bx1, by1)) \<Rightarrow>
          ax0 < bx1 \<and> bx0 < ax1 \<and> ay0 < by1 \<and> by0 < ay1)"

fun disjoint_from :: "int \<times> int \<times> int \<times> int \<Rightarrow> (int \<times> int \<times> int \<times> int) list \<Rightarrow> bool" where
  "disjoint_from a [] = True"
| "disjoint_from a (b # bs) = (\<not> overlap a b \<and> disjoint_from a bs)"

fun pairwise_disjoint :: "(int \<times> int \<times> int \<times> int) list \<Rightarrow> bool" where
  "pairwise_disjoint [] = True"
| "pairwise_disjoint (a # rest) = (disjoint_from a rest \<and> pairwise_disjoint rest)"

section \<open>A sample environment\<close>

text \<open>
  An environment for concrete runs: a logo of 100 by 100 pixels, four placeholder
  images of one pixel, a font, a table of two columns and one row, a table of one column
  and one row, a file that is not JSON, and nothing else.  The thumbnail size leaves an image that fits unchanged and
  scales one that does not, keeping the aspect ratio; cosine and sine are polynomial
  stand-ins for the platform's.
\<close>

definition sample_thumbnail_size :: "int \<times> int \<Rightarrow> int \<times> int \<Rightarrow> int \<times> int" where
  "sample_thumbnail_size sz bound =
     (let x = fst sz; y = snd sz;
          (x1, y1) = (if fst bound < x then (fst bound, max (y * fst bound div x) 1) else (x, y))
      in if snd bound < y1 then (max (x1 * snd bound div y1) 1, snd bound) else (x1, y1))"

definition sample_env :: env where
  "sample_env =
     \<lparr>read_json = (\<lambda>p. if p = ''data.json'' then Inr (record_set [''A'', ''B''] [[''1'', ''2'']])
                       else if p = ''narrow.json'' then Inr (record_set [''A''] [[''1'']])
                       else if p = ''broken.json'' then Inl JSONDecodeError
                       else Inl FileNotFoundError),
      truetype = (\<lambda>p. p = ''font.ttf''),
      image_open =
        (\<lambda>p. if p = ''logo.png'' then
                Inr \<lparr>im_source = p, im_mode = ''RGB'', im_size = (100, 100)\<rparr>
              else if p = ''1.png'' \<or> p = ''2.png'' \<or> p = ''3.png'' \<or> p = ''4.png'' then
                Inr \<lparr>im_source = p, im_mode = ''RGB'', im_size = (1, 1)\<rparr>
              else Inl FileNotFoundError),
      thumbnail_size = sample_thumbnail_size,
      save_image = (\<lambda>p. None),
      m_cos = (\<lambda>x. fl (1 - x * x / 2)),
      m_sin = (\<lambda>x. fl (x - x * x * x / 6))\<rparr>"

section \<open>Rounding to a double\<close>

lemma bitlen_powi:
  assumes "0 < p"
  shows "(2::rat) powi (bitlen p - 1) \<le> of_int p" and "of_int p < (2::rat) powi (bitlen p)"
proof -
  from bitlen_bounds[OF assms] have a: "2 ^ nat (bitlen p - 1) \<le> p" and b: "p < 2 ^ nat (bitlen p)"
    by auto
  have ge1: "1 \<le> bitlen p" using assms by (simp add: bitlen_alt_def)
  have "(2::rat) powi (bitlen p - 1) = 2 ^ nat (bitlen p - 1)"
    using ge1 by (simp add: power_int_def)
  also have "\<dots> = of_int (2 ^ nat (bitlen p - 1))" by simp
  also have "\<dots> \<le> of_int p" using a by (simp only: of_int_le_iff)
  finally show "(2::rat) powi (bitlen p - 1) \<le> of_int p" .
  have "(of_int p :: rat) < of_int (2 ^ nat (bitlen p))" using b by (simp only: of_int_less_iff)
  also have "\<dots> = 2 powi (bitlen p)" using ge1 by (simp add: power_int_def)
  finally show "of_int p < (2::rat) powi (bitlen p)" .
qed

lemma powi2_pos: "0 < (2::rat) powi e"
  by (simp add: power_int_def)

lemma powi2_Suc: "(2::rat) powi (e + 1) = 2 * 2 powi e"
  by (simp add: power_int_add)

lemma powi2_pred: "(2::rat) powi (e - 1) = 2 powi e / 2"
  by (simp add: power_int_diff)

lemma ilog2_sandwich:
  assumes "0 < x"
  shows "2 powi (ilog2 x) \<le> x \<and> x < 2 powi (ilog2 x + 1)"
proof -
  obtain p q where pq: "quotient_of x = (p, q)" by (cases "quotient_of x")
  then have q: "0 < q" and x: "x = of_int p / of_int q"
    by (auto dest: quotient_of_denom_pos quotient_of_div)
  with assms have p: "0 < p" by (simp add: zero_less_divide_iff)
  define l where "l = bitlen p - bitlen q"
  note P = bitlen_powi[OF p] and Q = bitlen_powi[OF q]
  have qpos: "(0::rat) < of_int q" using q by simp
  have up: "x < 2 powi (l + 1)"
  proof -
    have "of_int p < (2::rat) powi (bitlen p)" by (rule P)
    also have "\<dots> = 2 powi (l + 1) * 2 powi (bitlen q - 1)"
      by (simp add: l_def power_int_add[symmetric])
    also have "\<dots> \<le> 2 powi (l + 1) * of_int q"
      using Q(1) powi2_pos[of "l + 1"] by (simp add: mult_left_mono)
    finally show ?thesis using qpos by (simp add: x pos_divide_less_eq)
  qed
  have lo: "2 powi (l - 1) \<le> x"
  proof -
    have "(2::rat) powi (l - 1) * of_int q \<le> 2 powi (l - 1) * 2 powi (bitlen q)"
      using Q(2) powi2_pos[of "l - 1"] by (simp add: mult_left_mono)
    also have "\<dots> = 2 powi (bitlen p - 1)"
      by (simp add: l_def power_int_add[symmetric])
    also have "\<dots> \<le> of_int p" by (rule P)
    finally show ?thesis using qpos by (simp add: x pos_le_divide_eq)
  qed
  have il: "ilog2 x = (if 2 powi l \<le> x then l else l - 1)"
    by (simp add: ilog2_def pq l_def)
  show ?thesis
  proof (cases "2 powi l \<le> x")
    case True
    with il up show ?thesis by simp
  next
    case False
    with il lo show ?thesis by simp
  qed
qed

lemma ilog2_unique:
  assumes "2 powi e \<le> x" and "x < 2 powi (e + 1)"
  shows "ilog2 x = e"
proof -
  have pos: "0 < x" using assms(1) powi2_pos[of e] by linarith
  from ilog2_sandwich[OF pos] have a: "2 powi (ilog2 x) \<le> x" and b: "x < 2 powi (ilog2 x + 1)"
    by auto
  have "(2::rat) powi e < 2 powi (ilog2 x + 1)" using assms(1) b by linarith
  then have "e < ilog2 x + 1"
    by (metis not_less power_int_increasing one_le_numeral)
  moreover have "(2::rat) powi (ilog2 x) < 2 powi (e + 1)" using assms(2) a by linarith
  then have "ilog2 x < e + 1"
    by (metis not_less power_int_increasing one_le_numeral)
  ultimately show ?thesis by simp
qed

lemma round_half_even_err: "\<bar>of_int (round_half_even r) - r\<bar> \<le> 1 / 2"
proof -
  have "of_int \<lfloor>r\<rfloor> \<le> r" "r < of_int \<lfloor>r\<rfloor> + 1" by linarith+
  then show ?thesis
    by (auto simp: round_half_even_def Let_def)
qed

lemma round_half_even_of_int: "round_half_even (of_int n) = n"
  by (simp add: round_half_even_def)


lemma fl_err: "\<bar>fl x - x\<bar> \<le> \<bar>x\<bar> / 2 ^ 53"
proof (cases "x = 0")
  case True
  then show ?thesis by (simp add: fl_def)
next
  case False
  define e where "e = ilog2 \<bar>x\<bar>"
  define u where "u = (2::rat) powi (e - 52)"
  have upos: "0 < u" by (simp add: u_def powi2_pos)
  have ax: "0 < \<bar>x\<bar>" using False by simp
  have lo: "2 powi e \<le> \<bar>x\<bar>" using ilog2_sandwich[OF ax] by (simp add: e_def)
  have flx: "fl x = of_int (round_half_even (x / u)) * u"
    using False by (simp add: fl_def Let_def u_def e_def)
  have "\<bar>fl x - x\<bar> = \<bar>of_int (round_half_even (x / u)) - x / u\<bar> * u"
  proof -
    have "fl x - x = (of_int (round_half_even (x / u)) - x / u) * u"
      using upos by (simp add: flx algebra_simps)
    then show ?thesis using upos by (simp add: abs_mult)
  qed
  also have "\<dots> \<le> (1 / 2) * u"
    using round_half_even_err[of "x / u"] upos by (simp add: mult_right_mono)
  also have "\<dots> = 2 powi e / 2 ^ 53"
  proof -
    have "u = 2 powi e / 2 powi 52" by (simp add: u_def power_int_diff)
    then show ?thesis by simp
  qed
  also have "\<dots> \<le> \<bar>x\<bar> / 2 ^ 53" using lo by (simp add: divide_right_mono)
  finally show ?thesis .
qed

lemma fl_representable:
  assumes m: "\<bar>m\<bar> \<le> 2 ^ 53"
  shows "fl (of_int m * 2 powi k) = of_int m * 2 powi k"
proof (cases "m = 0")
  case True
  then show ?thesis by (simp add: fl_def)
next
  case False
  define x where "x = (of_int m :: rat) * 2 powi k"
  define e where "e = ilog2 \<bar>x\<bar>"
  define u where "u = (2::rat) powi (e - 52)"
  have upos: "0 < u" by (simp add: u_def powi2_pos)
  have xne: "x \<noteq> 0" using False by (simp add: x_def)
  have ax: "0 < \<bar>x\<bar>" using xne by simp
  have absx: "\<bar>x\<bar> = of_int \<bar>m\<bar> * 2 powi k"
    using powi2_pos[of k] by (simp add: x_def abs_mult)
  have lo: "2 powi e \<le> \<bar>x\<bar>" using ilog2_sandwich[OF ax] by (simp add: e_def)
  have flx: "fl x = of_int (round_half_even (x / u)) * u"
    using xne by (simp add: fl_def Let_def u_def e_def)
  have mle: "(of_int \<bar>m\<bar> :: rat) \<le> 2 ^ 53"
  proof -
    have "(of_int \<bar>m\<bar> :: rat) \<le> of_int (2 ^ 53)" using m by (simp only: of_int_le_iff)
    then show ?thesis by simp
  qed
  have "\<bar>x\<bar> \<le> 2 ^ 53 * 2 powi k"
    unfolding absx using mle powi2_pos[of k] by (simp add: mult_right_mono)
  also have "\<dots> = 2 powi (53 + k)" by (simp add: power_int_add)
  finally have hi: "\<bar>x\<bar> \<le> 2 powi (53 + k)" .
  have ele: "e \<le> 53 + k"
  proof (rule ccontr)
    assume "\<not> e \<le> 53 + k"
    then have "53 + k + 1 \<le> e" by simp
    then have "(2::rat) powi (53 + k + 1) \<le> 2 powi e"
      by (intro power_int_increasing) auto
    moreover have "(2::rat) powi (53 + k) < 2 powi (53 + k + 1)"
      by (intro power_int_strict_increasing) auto
    ultimately show False using lo hi by linarith
  qed
  have "\<exists>j. x / u = of_int j"
  proof (cases "e \<le> 52 + k")
    case True
    define d where "d = nat (k - (e - 52))"
    have "x / u = of_int m * (2 powi k / 2 powi (e - 52))" by (simp add: x_def u_def)
    also have "2 powi k / 2 powi (e - 52) = (2::rat) powi (k - (e - 52))"
      by (simp add: power_int_diff)
    also have "\<dots> = 2 ^ d" using True by (simp add: power_int_def d_def)
    finally have "x / u = of_int (m * 2 ^ d)" by simp
    then show ?thesis by blast
  next
    case False
    with ele have e: "e = 53 + k" by simp
    have "2 powi (53 + k) \<le> of_int \<bar>m\<bar> * (2::rat) powi k" using lo absx e by simp
    then have "(2::rat) ^ 53 * 2 powi k \<le> of_int \<bar>m\<bar> * 2 powi k" by (simp add: power_int_add)
    then have "(2::rat) ^ 53 \<le> of_int \<bar>m\<bar>" using powi2_pos[of k] by simp
    with mle have "(of_int \<bar>m\<bar> :: rat) = of_int (2 ^ 53)" by simp
    then have am: "\<bar>m\<bar> = 2 ^ 53" by (simp only: of_int_eq_iff)
    have "u = 2 * 2 powi k" by (simp add: u_def e power_int_add)
    then have xu: "x / u = of_int m / 2" by (simp add: x_def)
    from am have "m = 2 ^ 53 \<or> m = - (2 ^ 53)" by linarith
    then show ?thesis
    proof
      assume "m = 2 ^ 53"
      then have "x / u = of_int (2 ^ 52)" by (simp add: xu)
      then show ?thesis by blast
    next
      assume "m = - (2 ^ 53)"
      then have "x / u = of_int (- (2 ^ 52))" by (simp add: xu)
      then show ?thesis by blast
    qed
  qed
  then obtain j where j: "x / u = of_int j" by blast
  have "fl x = (x / u) * u" by (simp add: flx j round_half_even_of_int)
  also have "\<dots> = x" using upos by simp
  finally show ?thesis by (simp add: x_def)
qed

lemma fl_of_int: "\<bar>n\<bar> \<le> 2 ^ 53 \<Longrightarrow> fl (of_int n) = of_int n"
  using fl_representable[of n 0] by simp


lemma fl_idem: "fl (fl x) = fl x"
proof (cases "x = 0")
  case True
  then show ?thesis by (simp add: fl_def)
next
  case False
  define e where "e = ilog2 \<bar>x\<bar>"
  define u where "u = (2::rat) powi (e - 52)"
  define j where "j = round_half_even (x / u)"
  have upos: "0 < u" by (simp add: u_def powi2_pos)
  have ax: "0 < \<bar>x\<bar>" using False by simp
  have hi: "\<bar>x\<bar> < 2 powi (e + 1)" using ilog2_sandwich[OF ax] by (simp add: e_def)
  have flx: "fl x = of_int j * 2 powi (e - 52)"
    using False by (simp add: fl_def Let_def u_def e_def j_def)
  have "2 powi (e + 1) = (2::rat) ^ 53 * u"
  proof -
    have "(2::rat) powi (e + 1) = 2 powi (53 + (e - 52))"
      by (rule arg_cong[where f = "\<lambda>n. 2 powi n"]) simp
    also have "\<dots> = 2 powi 53 * 2 powi (e - 52)" by (rule power_int_add) simp
    finally show ?thesis by (simp add: u_def)
  qed
  with hi have "\<bar>x\<bar> < 2 ^ 53 * u" by simp
  then have "\<bar>x\<bar> / u < 2 ^ 53" using upos by (simp add: pos_divide_less_eq)
  then have v: "\<bar>x / u\<bar> < 2 ^ 53" using upos by (simp add: abs_divide)
  have "\<bar>(of_int j :: rat)\<bar> \<le> \<bar>of_int j - x / u\<bar> + \<bar>x / u\<bar>" by linarith
  also have "\<dots> < 1 / 2 + 2 ^ 53" using v round_half_even_err[of "x / u"] by (simp add: j_def)
  finally have "(of_int \<bar>j\<bar> :: rat) < of_int (2 ^ 53 + 1)" by simp
  then have "\<bar>j\<bar> < 2 ^ 53 + 1" by (simp only: of_int_less_iff)
  then have "\<bar>j\<bar> \<le> 2 ^ 53" by simp
  from fl_representable[OF this, of "e - 52"] show ?thesis by (simp add: flx)
qed

lemma fl_double: "fl (2 * x) = 2 * fl x"
proof (cases "x = 0")
  case True
  then show ?thesis by (simp add: fl_def)
next
  case False
  have ax: "0 < \<bar>x\<bar>" using False by simp
  from ilog2_sandwich[OF ax]
  have lo: "2 powi (ilog2 \<bar>x\<bar>) \<le> \<bar>x\<bar>" and hi: "\<bar>x\<bar> < 2 powi (ilog2 \<bar>x\<bar> + 1)" by auto
  have "ilog2 \<bar>2 * x\<bar> = ilog2 \<bar>x\<bar> + 1"
  proof (rule ilog2_unique)
    show "2 powi (ilog2 \<bar>x\<bar> + 1) \<le> \<bar>2 * x\<bar>" using lo by (simp add: powi2_Suc abs_mult)
    show "\<bar>2 * x\<bar> < 2 powi (ilog2 \<bar>x\<bar> + 1 + 1)"
    proof -
      have "\<bar>2 * x\<bar> = 2 * \<bar>x\<bar>" by (simp add: abs_mult)
      also have "\<dots> < 2 * 2 powi (ilog2 \<bar>x\<bar> + 1)" using hi by simp
      also have "\<dots> = 2 powi (ilog2 \<bar>x\<bar> + 1 + 1)" by (rule powi2_Suc[symmetric])
      finally show ?thesis .
    qed
  qed
  then have "2 powi (ilog2 \<bar>2 * x\<bar> - 52) = 2 * (2::rat) powi (ilog2 \<bar>x\<bar> - 52)"
    by (simp add: powi2_Suc[symmetric] algebra_simps)
  then show ?thesis using False by (simp add: fl_def Let_def)
qed

lemma fl_0: "fl 0 = 0" by (simp add: fl_def)
lemma fl_1: "fl 1 = 1" using fl_of_int[of 1] by simp
lemma fl_2: "fl 2 = 2" using fl_of_int[of 2] by simp
lemma fl_half: "fl (1 / 2) = 1 / 2" using fl_representable[of 1 "-1"] by (simp add: power_int_minus)

lemma round_half_even_mono: "a \<le> b \<Longrightarrow> round_half_even a \<le> round_half_even b"
proof -
  assume ab: "a \<le> b"
  have fa: "of_int \<lfloor>a\<rfloor> \<le> a" "a < of_int \<lfloor>a\<rfloor> + 1" by linarith+
  have fb: "of_int \<lfloor>b\<rfloor> \<le> b" "b < of_int \<lfloor>b\<rfloor> + 1" by linarith+
  have "\<lfloor>a\<rfloor> \<le> \<lfloor>b\<rfloor>" using ab by (rule floor_mono)
  then consider "\<lfloor>a\<rfloor> = \<lfloor>b\<rfloor>" | "\<lfloor>a\<rfloor> + 1 \<le> \<lfloor>b\<rfloor>" by linarith
  then show ?thesis
  proof cases
    case 1
    then show ?thesis using ab by (auto simp: round_half_even_def Let_def)
  next
    case 2
    have "round_half_even a \<le> \<lfloor>a\<rfloor> + 1" by (auto simp: round_half_even_def Let_def)
    moreover have "\<lfloor>b\<rfloor> \<le> round_half_even b" by (auto simp: round_half_even_def Let_def)
    ultimately show ?thesis using 2 by linarith
  qed
qed

lemma fl_nonneg: "0 \<le> x \<Longrightarrow> 0 \<le> fl x"
proof -
  assume x: "0 \<le> x"
  show ?thesis
  proof (cases "x = 0")
    case True then show ?thesis by (simp add: fl_def)
  next
    case False
    define u where "u = (2::rat) powi (ilog2 \<bar>x\<bar> - 52)"
    have upos: "0 < u" by (simp add: u_def powi2_pos)
    have "0 \<le> x / u" using x upos by simp
    from round_half_even_mono[OF this] have "0 \<le> round_half_even (x / u)"
      using round_half_even_of_int[of 0] by simp
    then show ?thesis using False upos by (simp add: fl_def Let_def u_def[symmetric])
  qed
qed

lemma fl_pos_bounds:
  assumes x: "0 < x"
  shows "2 powi (ilog2 x) \<le> fl x" and "fl x \<le> 2 powi (ilog2 x + 1)"
proof -
  define e where "e = ilog2 x"
  define u where "u = (2::rat) powi (e - 52)"
  have upos: "0 < u" by (simp add: u_def powi2_pos)
  have ax: "\<bar>x\<bar> = x" using x by simp
  have flx: "fl x = of_int (round_half_even (x / u)) * u"
    using x by (simp add: fl_def Let_def u_def e_def)
  from ilog2_sandwich[OF x] have lo: "2 powi e \<le> x" and hi: "x < 2 powi (e + 1)"
    by (auto simp: e_def)
  have e0: "(2::rat) powi e = 2 ^ 52 * u"
  proof -
    have "(2::rat) powi e = 2 powi (52 + (e - 52))"
      by (rule arg_cong[where f = "\<lambda>n. 2 powi n"]) simp
    also have "\<dots> = 2 powi 52 * 2 powi (e - 52)" by (rule power_int_add) simp
    finally show ?thesis by (simp add: u_def)
  qed
  have e1: "(2::rat) powi (e + 1) = 2 ^ 53 * u"
    by (simp add: powi2_Suc e0)
  have "of_int (2 ^ 52) \<le> x / u" using lo upos by (simp add: e0 pos_le_divide_eq)
  from round_half_even_mono[OF this] have "2 ^ 52 \<le> round_half_even (x / u)"
    by (simp only: round_half_even_of_int)
  then have "(of_int (2 ^ 52) :: rat) \<le> of_int (round_half_even (x / u))"
    by (simp only: of_int_le_iff)
  then have "2 ^ 52 * u \<le> fl x" unfolding flx using upos by (simp add: mult_right_mono)
  then show "2 powi (ilog2 x) \<le> fl x" by (simp add: e0 e_def[symmetric])
  have "x / u \<le> of_int (2 ^ 53)" using hi upos by (simp add: e1 pos_divide_le_eq)
  from round_half_even_mono[OF this] have "round_half_even (x / u) \<le> 2 ^ 53"
    by (simp only: round_half_even_of_int)
  then have "(of_int (round_half_even (x / u)) :: rat) \<le> of_int (2 ^ 53)"
    by (simp only: of_int_le_iff)
  then have "fl x \<le> 2 ^ 53 * u" unfolding flx using upos by (simp add: mult_right_mono)
  then show "fl x \<le> 2 powi (ilog2 x + 1)" by (simp add: e1 e_def[symmetric])
qed

lemma fl_mono_nonneg:
  assumes "0 \<le> x" and "x \<le> y"
  shows "fl x \<le> fl y"
proof (cases "x = 0")
  case True
  then show ?thesis using assms fl_nonneg[of y] by (simp add: fl_def)
next
  case False
  with assms have x: "0 < x" and y: "0 < y" by auto
  from ilog2_sandwich[OF x] ilog2_sandwich[OF y] assms(2)
  have "(2::rat) powi (ilog2 x) < 2 powi (ilog2 y + 1)" by linarith
  then have "ilog2 x < ilog2 y + 1"
    by (metis not_less power_int_increasing one_le_numeral)
  then consider "ilog2 x = ilog2 y" | "ilog2 x + 1 \<le> ilog2 y" by linarith
  then show ?thesis
  proof cases
    case 1
    define u where "u = (2::rat) powi (ilog2 y - 52)"
    have upos: "0 < u" by (simp add: u_def powi2_pos)
    have "x / u \<le> y / u" using assms(2) upos by (simp add: divide_right_mono)
    from round_half_even_mono[OF this]
    have "(of_int (round_half_even (x / u)) :: rat) \<le> of_int (round_half_even (y / u))"
      by (simp only: of_int_le_iff)
    then have "of_int (round_half_even (x / u)) * u \<le> of_int (round_half_even (y / u)) * u"
      using upos by (simp add: mult_right_mono)
    then show ?thesis using x y 1 by (simp add: fl_def Let_def u_def)
  next
    case 2
    have "fl x \<le> 2 powi (ilog2 x + 1)" by (rule fl_pos_bounds[OF x])
    also have "\<dots> \<le> 2 powi (ilog2 y)" using 2 by (intro power_int_increasing) auto
    also have "\<dots> \<le> fl y" by (rule fl_pos_bounds[OF y])
    finally show ?thesis .
  qed
qed

lemma floor_numeral_div: "\<lfloor>(numeral a :: rat) / numeral b\<rfloor> = numeral a div numeral b"
  using floor_divide_of_int_eq[of "numeral a" "numeral b", where ?'a = rat] by simp

lemma fl_numeral: "(numeral n :: int) \<le> 2 ^ 53 \<Longrightarrow> fl (numeral n) = numeral n"
  using fl_of_int[of "numeral n"] by simp

lemma fl_numeral_div2: "(numeral n :: int) \<le> 2 ^ 53 \<Longrightarrow> fl (numeral n / 2) = numeral n / 2"
  using fl_representable[of "numeral n" "- 1"] by (simp add: power_int_minus)

lemma fl_numeral_div4: "(numeral n :: int) \<le> 2 ^ 53 \<Longrightarrow> fl (numeral n / 4) = numeral n / 4"
  using fl_representable[of "numeral n" "- 2"] by (simp add: power_int_minus)

lemma fl_numeral_div8: "(numeral n :: int) \<le> 2 ^ 53 \<Longrightarrow> fl (numeral n / 8) = numeral n / 8"
  using fl_representable[of "numeral n" "- 3"] by (simp add: power_int_minus)

lemma fl_one_div: "fl (1 / 2) = 1 / 2" "fl (1 / 4) = 1 / 4" "fl (1 / 8) = 1 / 8"
  using fl_representable[of 1 "- 1"] fl_representable[of 1 "- 2"] fl_representable[of 1 "- 3"]
  by (simp_all add: power_int_minus)

lemmas fl_dyadic =
  fl_0 fl_1 fl_numeral fl_numeral_div2 fl_numeral_div4 fl_numeral_div8 fl_one_div
  floor_numeral_div

lemmas float_ops = py_float_def fadd_def fsub_def fmul_def fdiv_def

section \<open>Colour conversion\<close>

lemma lstrip_hash_Cons: "lstrip_hash (CHR ''#'' # h) = lstrip_hash h"
  by (simp add: lstrip_hash_def)

lemma hex_to_rgb_blue: "hex_to_rgb ''accbf2'' = Inr (172, 203, 242)"
  by code_simp

lemma hex_to_rgb_orange: "hex_to_rgb ''fd9965'' = Inr (253, 153, 101)"
  by code_simp

text \<open>
  Claim C7.  \<open>hex_to_rgb("accbf2")\<close> is \<open>(172, 203, 242)\<close>; the string with a leading
  \<open>#\<close> converts to the same value; and for every string \<open>h\<close> (so for every string of
  six hexadecimal digits) a leading \<open>#\<close> does not change the result.
\<close>

theorem hex_to_rgb_prefix:
  "hex_to_rgb ''accbf2'' = Inr (172, 203, 242)
   \<and> hex_to_rgb ''#accbf2'' = hex_to_rgb ''accbf2''
   \<and> (\<forall>h. hex_to_rgb (CHR ''#'' # h) = hex_to_rgb h)"
proof -
  have a: "hex_to_rgb ''accbf2'' = Inr (172, 203, 242)"
    by code_simp
  have b: "hex_to_rgb (CHR ''#'' # h) = hex_to_rgb h" for h
    by (simp add: hex_to_rgb_def lstrip_hash_Cons)
  from a b show ?thesis by simp
qed

section \<open>The gradient\<close>

lemma gradient_rows_eq:
  "gradient_rows d w h t b rows =
     d @ map (\<lambda>i. Line (0, i) (w, i) (gradient_color h i t b) 1) rows"
  by (induction rows arbitrary: d) simp_all

lemma draw_gradient_eq:
  "draw_gradient d w h t b = d @ map (\<lambda>i. Line (0, i) (w, i) (gradient_color h i t b) 1) [0..h - 1]"
  by (simp add: draw_gradient_def gradient_rows_eq)

lemma upto_nth: "0 \<le> i \<Longrightarrow> i < h \<Longrightarrow> [0..h - 1] ! nat i = i"
  by (simp add: nth_upto)

lemma draw_gradient_nth:
  assumes "0 \<le> i" "i < h"
  shows "draw_gradient d w h t b ! (length d + nat i) = Line (0, i) (w, i) (gradient_color h i t b) 1"
  using assms by (simp add: draw_gradient_eq nth_append nth_upto)

lemma draw_gradient_length: "length (draw_gradient d w h t b) = length d + nat h"
  by (simp add: draw_gradient_eq)


lemma eps_pos: "0 < eps" by (simp add: eps_def)

lemma eps_small: "eps \<le> 1 / 1000000000" by (simp add: eps_def)

lemma fl_close: "\<bar>x\<bar> \<le> M \<Longrightarrow> \<bar>fl x - x\<bar> \<le> M * eps"
proof -
  assume M: "\<bar>x\<bar> \<le> M"
  have "\<bar>fl x - x\<bar> \<le> \<bar>x\<bar> / 2 ^ 53" by (rule fl_err)
  also have "\<dots> = \<bar>x\<bar> * eps" by (simp add: eps_def)
  also have "\<dots> \<le> M * eps" using M eps_pos by (simp add: mult_right_mono)
  finally show ?thesis .
qed

lemma py_float_exact: "\<bar>n\<bar> \<le> 2 ^ 53 \<Longrightarrow> py_float n = of_int n"
  by (simp add: py_float_def fl_of_int)

lemma half_iff: "(i \<le> h div 2) = ((of_int i :: rat) \<le> of_int h / 2)" for i h :: int
proof -
  have "(i \<le> h div 2) = (2 * i \<le> h)" by linarith
  also have "\<dots> = ((of_int (2 * i) :: rat) \<le> of_int h)" by (simp only: of_int_le_iff)
  also have "\<dots> = ((of_int i :: rat) \<le> of_int h / 2)" by (simp add: mult.commute)
  finally show ?thesis .
qed

lemma twice_fdiv:
  assumes "\<bar>i\<bar> \<le> 2 ^ 53" "\<bar>h\<bar> \<le> 2 ^ 53"
  shows "fmul (fdiv (py_float i) (py_float h)) 2 = fl (2 * of_int i / of_int h)"
proof -
  have "fmul (fdiv (py_float i) (py_float h)) 2 = fl (2 * fl (of_int i / of_int h))"
    using assms by (simp add: fmul_def fdiv_def py_float_exact mult.commute)
  also have "\<dots> = 2 * fl (of_int i / of_int h)" by (simp add: fl_double fl_idem)
  also have "\<dots> = fl (2 * (of_int i / of_int h))" by (rule fl_double[symmetric])
  finally show ?thesis by simp
qed

lemma blend_eq:
  assumes "0 \<le> i" "i < h" "h \<le> 2 ^ 53"
  shows "blend h i =
     (if (of_int i :: rat) \<le> of_int h / 2 then fl (2 * of_int i / of_int h)
      else fl (2 - fl (2 * of_int i / of_int h)))"
proof -
  have b: "\<bar>i\<bar> \<le> 2 ^ 53" "\<bar>h\<bar> \<le> 2 ^ 53" using assms by linarith+
  show ?thesis
    by (simp add: blend_def twice_fdiv[OF b] fsub_def half_iff)
qed

lemma blend_range:
  assumes "0 \<le> i" "i < h" "h \<le> 2 ^ 53"
  shows "0 \<le> blend h i \<and> blend h i \<le> 1"
proof -
  have hpos: "(0::rat) < of_int h" using assms by simp
  define r where "r = (of_int i :: rat) / of_int h"
  have r0: "0 \<le> r" using assms by (simp add: r_def)
  have r1: "r \<le> 1" using assms by (simp add: r_def)
  have two: "fl (2 * of_int i / of_int h) = 2 * fl r"
    using fl_double[of r] by (simp add: r_def)
  show ?thesis
  proof (cases "(of_int i :: rat) \<le> of_int h / 2")
    case True
    then have "r \<le> 1 / 2" using hpos by (simp add: r_def pos_divide_le_eq)
    from fl_mono_nonneg[OF r0 this] have "fl r \<le> 1 / 2" by (simp add: fl_half)
    moreover have "0 \<le> fl r" using r0 by (rule fl_nonneg)
    ultimately show ?thesis using True by (simp add: blend_eq[OF assms] two)
  next
    case False
    then have "1 / 2 \<le> r" using hpos by (simp add: r_def pos_le_divide_eq)
    from fl_mono_nonneg[OF _ this] have lo: "1 / 2 \<le> fl r" by (simp add: fl_half)
    from fl_mono_nonneg[OF r0 r1] have hi: "fl r \<le> 1" by (simp add: fl_1)
    have a: "0 \<le> 2 - 2 * fl r" using hi by simp
    have b: "2 - 2 * fl r \<le> 1" using lo by simp
    have "fl (2 - 2 * fl r) \<le> 1" using fl_mono_nonneg[OF a b] by (simp add: fl_1)
    moreover have "0 \<le> fl (2 - 2 * fl r)" using a by (rule fl_nonneg)
    ultimately show ?thesis using False by (simp add: blend_eq[OF assms] two)
  qed
qed

lemma mix_close:
  assumes t: "0 \<le> t" "t \<le> 255" and b: "0 \<le> b" "b \<le> 255"
    and be: "0 \<le> be" "be \<le> 1"
  shows "\<bar>fadd (fmul (py_float t) (fsub 1 be)) (fmul (py_float b) be)
          - (of_int t * (1 - be) + of_int b * be)\<bar> \<le> 2048 * eps"
proof -
  define w where "w = fl (1 - be)"
  define A where "A = fl (of_int t * w)"
  define B where "B = fl (of_int b * be)"
  note e = eps_pos eps_small
  have "\<bar>t\<bar> \<le> 255" "\<bar>b\<bar> \<le> 255" using t b by linarith+
  then have "\<bar>t\<bar> \<le> 2 ^ 53" "\<bar>b\<bar> \<le> 2 ^ 53" by simp_all
  then have pt: "py_float t = of_int t" and pb: "py_float b = of_int b"
    by (simp_all add: py_float_exact)
  have S: "fadd (fmul (py_float t) (fsub 1 be)) (fmul (py_float b) be) = fl (A + B)"
    by (simp add: fadd_def fmul_def fsub_def pt pb A_def B_def w_def)
  have tr: "(0::rat) \<le> of_int t" "(of_int t :: rat) \<le> 255" using t by simp_all
  have br: "(0::rat) \<le> of_int b" "(of_int b :: rat) \<le> 255" using b by simp_all
  have w0: "0 \<le> w" unfolding w_def using be by (intro fl_nonneg) simp
  have "\<bar>1 - be\<bar> \<le> 1" using be by linarith
  then have wc: "\<bar>w - (1 - be)\<bar> \<le> 1 * eps" unfolding w_def by (rule fl_close)
  have wle: "w \<le> 2" using wc be e by linarith
  have tw0: "0 \<le> of_int t * w" using tr w0 by simp
  have tw1: "of_int t * w \<le> 255 * w" using tr w0 by (simp add: mult_right_mono)
  have tw2: "\<bar>of_int t * w\<bar> \<le> 510" using tw0 tw1 wle by linarith
  have Ac: "\<bar>A - of_int t * w\<bar> \<le> 510 * eps" unfolding A_def using tw2 by (rule fl_close)
  have bb0: "0 \<le> of_int b * be" using br be by simp
  have bb1: "of_int b * be \<le> 255 * be" using br be by (simp add: mult_right_mono)
  have bb2: "\<bar>of_int b * be\<bar> \<le> 510" using bb0 bb1 be by linarith
  have Bc: "\<bar>B - of_int b * be\<bar> \<le> 510 * eps" unfolding B_def using bb2 by (rule fl_close)
  have d1: "\<bar>of_int t * w - of_int t * (1 - be)\<bar> \<le> 255 * eps"
  proof -
    have "of_int t * w - of_int t * (1 - be) = of_int t * (w - (1 - be))"
      by (simp add: algebra_simps)
    then have "\<bar>of_int t * w - of_int t * (1 - be)\<bar> = of_int t * \<bar>w - (1 - be)\<bar>"
      using tr by (simp add: abs_mult)
    also have "\<dots> \<le> 255 * \<bar>w - (1 - be)\<bar>" using tr by (simp add: mult_right_mono)
    also have "\<dots> \<le> 255 * eps" using wc by simp
    finally show ?thesis .
  qed
  have x1: "of_int t * (1 - be) + of_int b * be \<le> 255"
  proof -
    have "0 \<le> 1 - be" using be by simp
    then have "of_int t * (1 - be) \<le> 255 * (1 - be)" using tr(2) by (rule mult_right_mono[rotated])
    then have "of_int t * (1 - be) \<le> 255 - 255 * be" by (simp add: algebra_simps)
    with bb1 show ?thesis by linarith
  qed
  have x0: "0 \<le> of_int t * (1 - be) + of_int b * be" using tr br be by simp
  have AB: "\<bar>A + B\<bar> \<le> 256" using Ac Bc d1 x1 x0 e by linarith
  have Sc: "\<bar>fl (A + B) - (A + B)\<bar> \<le> 256 * eps" using AB by (rule fl_close)
  show ?thesis unfolding S using Sc Ac Bc d1 e by linarith
qed

lemma mix_range:
  assumes t: "0 \<le> t" "t \<le> 255" and b: "0 \<le> b" "b \<le> 255"
    and be: "0 \<le> be" "be \<le> 1"
  shows "0 \<le> fadd (fmul (py_float t) (fsub 1 be)) (fmul (py_float b) be)"
    and "fadd (fmul (py_float t) (fsub 1 be)) (fmul (py_float b) be) < 256"
proof -
  have tr: "(0::rat) \<le> of_int t" "(of_int t :: rat) \<le> 255" using t by simp_all
  have br: "(0::rat) \<le> of_int b" "(of_int b :: rat) \<le> 255" using b by simp_all
  have "0 \<le> 1 - be" using be by simp
  then have "of_int t * (1 - be) \<le> 255 * (1 - be)" using tr(2) by (rule mult_right_mono[rotated])
  then have "of_int t * (1 - be) \<le> 255 - 255 * be" by (simp add: algebra_simps)
  moreover have "of_int b * be \<le> 255 * be" using br(2) be(1) by (rule mult_right_mono)
  ultimately have "of_int t * (1 - be) + of_int b * be \<le> 255" by linarith
  with mix_close[OF assms] eps_small
  show "fadd (fmul (py_float t) (fsub 1 be)) (fmul (py_float b) be) < 256" by linarith
  have "0 \<le> fmul (py_float t) (fsub 1 be)"
    unfolding fmul_def fsub_def py_float_def using t be
    by (intro fl_nonneg mult_nonneg_nonneg) simp_all
  moreover have "0 \<le> fmul (py_float b) be"
    unfolding fmul_def py_float_def using b be
    by (intro fl_nonneg mult_nonneg_nonneg) simp_all
  ultimately show "0 \<le> fadd (fmul (py_float t) (fsub 1 be)) (fmul (py_float b) be)"
    unfolding fadd_def by (intro fl_nonneg) simp
qed

lemma channel_range:
  assumes "0 \<le> i" "i < h" "h \<le> 2 ^ 53" "0 \<le> t" "t \<le> 255" "0 \<le> b" "b \<le> 255"
  shows "0 \<le> channel h i t b \<and> channel h i t b \<le> 255"
proof -
  from blend_range[OF assms(1-3)] have be: "0 \<le> blend h i" "blend h i \<le> 1" by auto
  define s where "s = fadd (fmul (py_float t) (fsub 1 (blend h i))) (fmul (py_float b) (blend h i))"
  from mix_range[OF assms(4-7) be] have s: "0 \<le> s" "s < 256" by (simp_all add: s_def)
  have "channel h i t b = \<lfloor>s\<rfloor>" using s by (simp add: channel_def py_int_def s_def)
  moreover have "0 \<le> \<lfloor>s\<rfloor>" using s by simp
  moreover have "\<lfloor>s\<rfloor> < 256" using s by (simp add: floor_less_iff)
  ultimately show ?thesis by simp
qed

lemma blend_last:
  assumes h: "512 \<le> h" "h \<le> 2 ^ 53"
  shows "blend h (h - 1) \<le> 2 / of_int h + 3 * eps"
proof -
  note e = eps_pos eps_small
  have hr: "(512::rat) \<le> of_int h" using h(1) by simp
  have hpos: "(0::rat) < of_int h" using hr by simp
  define r where "r = 2 * (of_int (h - 1) :: rat) / of_int h"
  have r_eq: "r = 2 - 2 / of_int h" using hpos by (simp add: r_def field_simps)
  have inv: "2 / (of_int h :: rat) \<le> 1 / 256" using hr hpos by (simp add: field_simps)
  have inv0: "0 < 2 / (of_int h :: rat)" using hpos by simp
  have r0: "0 \<le> r" and r2: "r \<le> 2" unfolding r_eq using inv inv0 by linarith+
  have nothalf: "\<not> (of_int (h - 1) :: rat) \<le> of_int h / 2" using hr by simp
  have bl: "blend h (h - 1) = fl (2 - fl r)"
    using blend_eq[of "h - 1" h] h nothalf by (simp add: r_def)
  have q_hi: "fl r \<le> 2" using fl_mono_nonneg[OF r0 r2] by (simp add: fl_2)
  have "\<bar>r\<bar> \<le> 2" using r0 r2 by linarith
  then have rc: "\<bar>fl r - r\<bar> \<le> 2 * eps" by (rule fl_close)
  have d: "2 - fl r \<le> 2 / of_int h + 2 * eps" using rc unfolding r_eq by linarith
  have d0: "0 \<le> 2 - fl r" using q_hi by simp
  have d1: "\<bar>2 - fl r\<bar> \<le> 1" using d d0 inv e by linarith
  from fl_close[OF d1] d show ?thesis unfolding bl by linarith
qed

lemma channel_first:
  assumes h: "0 < h" "h \<le> 2 ^ 53" and t: "0 \<le> t" "t \<le> 255" and b: "0 \<le> b" "b \<le> 255"
  shows "channel h 0 t b = t"
proof -
  have "\<bar>t\<bar> \<le> 255" "\<bar>b\<bar> \<le> 255" using t b by linarith+
  then have "\<bar>t\<bar> \<le> 2 ^ 53" "\<bar>b\<bar> \<le> 2 ^ 53" by simp_all
  then have pt: "py_float t = of_int t" and pb: "py_float b = of_int b"
    and ft: "fl (of_int t) = of_int t"
    by (simp_all add: py_float_exact fl_of_int)
  have bl: "blend h 0 = 0" using blend_eq[of 0 h] h by (simp add: fl_0)
  show ?thesis using t
    by (simp add: channel_def bl fadd_def fmul_def fsub_def pt pb fl_0 fl_1 ft py_int_def)
qed

lemma channel_middle:
  assumes h: "0 < h" "h \<le> 2 ^ 53" "even h"
    and t: "0 \<le> t" "t \<le> 255" and b: "0 \<le> b" "b \<le> 255"
  shows "channel h (h div 2) t b = b"
proof -
  have "\<bar>t\<bar> \<le> 255" "\<bar>b\<bar> \<le> 255" using t b by linarith+
  then have "\<bar>t\<bar> \<le> 2 ^ 53" "\<bar>b\<bar> \<le> 2 ^ 53" by simp_all
  then have pt: "py_float t = of_int t" and pb: "py_float b = of_int b"
    and fb: "fl (of_int b) = of_int b"
    by (simp_all add: py_float_exact fl_of_int)
  from h(3) obtain k where k: "h = 2 * k" by (elim evenE)
  have kpos: "0 < k" using h(1) k by simp
  have half: "h div 2 = k" using k by simp
  have "(2 * of_int k :: rat) / of_int h = 1" using kpos by (simp add: k)
  moreover have "(of_int k :: rat) \<le> of_int h / 2" by (simp add: k)
  ultimately have bl: "blend h k = 1"
    using blend_eq[of k h] h kpos k by (simp add: fl_1)
  show ?thesis using b
    by (simp add: half channel_def bl fadd_def fmul_def fsub_def pt pb fl_0 fl_1 fb py_int_def)
qed

lemma channel_last:
  assumes h: "512 \<le> h" "h \<le> 2 ^ 53"
    and t: "0 \<le> t" "t \<le> 255" and b: "0 \<le> b" "b \<le> 255"
  shows "\<bar>channel h (h - 1) t b - t\<bar> \<le> 1"
proof -
  note e = eps_pos eps_small
  define be where "be = blend h (h - 1)"
  define s where "s = fadd (fmul (py_float t) (fsub 1 be)) (fmul (py_float b) be)"
  have hr: "(512::rat) \<le> of_int h" using h(1) by simp
  have hpos: "(0::rat) < of_int h" using hr by simp
  have inv: "2 / (of_int h :: rat) \<le> 1 / 256" using hr hpos by (simp add: field_simps)
  from blend_range[of "h - 1" h] h have be01: "0 \<le> be" "be \<le> 1" by (simp_all add: be_def)
  from blend_last[OF h] inv have be_hi: "be \<le> 1 / 256 + 3 * eps"
    unfolding be_def by linarith
  from mix_close[OF t b be01]
  have sc: "\<bar>s - (of_int t * (1 - be) + of_int b * be)\<bar> \<le> 2048 * eps" by (simp add: s_def)
  from mix_range[OF t b be01] have s0: "0 \<le> s" by (simp add: s_def)
  define x where "x = (of_int b - of_int t :: rat) * be"
  have "\<bar>(of_int b - of_int t :: rat)\<bar> \<le> 255" using t b by simp
  then have "\<bar>x\<bar> \<le> 255 * be"
    using be01 by (simp add: x_def abs_mult mult_right_mono)
  also have "\<dots> \<le> 255 / 256 + 765 * eps" using be_hi by simp
  finally have m: "\<bar>x\<bar> \<le> 255 / 256 + 765 * eps" .
  have "of_int t * (1 - be) + of_int b * be = of_int t + x"
    by (simp add: x_def algebra_simps)
  with sc have sx: "\<bar>s - (of_int t + x)\<bar> \<le> 2048 * eps" by simp
  from sx m e have lo: "of_int t - 1 < s" and hi: "s < of_int t + 1" by linarith+
  have c: "channel h (h - 1) t b = \<lfloor>s\<rfloor>"
    using s0 by (simp add: channel_def py_int_def s_def be_def)
  have "of_int (t - 1) \<le> s" using lo by simp
  then have "t - 1 \<le> \<lfloor>s\<rfloor>" by (simp only: le_floor_iff)
  moreover have "s < of_int (t + 1)" using hi by simp
  then have "\<lfloor>s\<rfloor> < t + 1" by (simp only: floor_less_iff)
  ultimately show ?thesis by (simp add: c)
qed

lemma channel_odd_height: "channel 3 (3 div 2) 172 253 \<le> 226"
proof -
  note e = eps_pos eps_small
  define be where "be = blend 3 1"
  define s where "s = fadd (fmul (py_float 172) (fsub 1 be)) (fmul (py_float 253) be)"
  have be_eq: "be = fl (2 / 3)" using blend_eq[of 1 3] by (simp add: be_def)
  from blend_range[of 1 3] have be01: "0 \<le> be" "be \<le> 1" by (simp_all add: be_def)
  have "\<bar>(2::rat) / 3\<bar> \<le> 1" by simp
  then have "\<bar>fl (2 / 3) - 2 / 3\<bar> \<le> 1 * eps" by (rule fl_close)
  then have be_hi: "be \<le> 2 / 3 + eps" unfolding be_eq by linarith
  have "\<bar>s - (of_int 172 * (1 - be) + of_int 253 * be)\<bar> \<le> 2048 * eps"
    unfolding s_def using be01 by (intro mix_close) simp_all
  then have sc: "\<bar>s - (172 + 81 * be)\<bar> \<le> 2048 * eps" by (simp add: algebra_simps)
  have s0: "0 \<le> s" unfolding s_def using be01 by (intro mix_range) simp_all
  from sc be_hi e have "s < of_int 227" by simp
  then have "\<lfloor>s\<rfloor> < 227" by (simp only: floor_less_iff)
  moreover have "channel 3 (3 div 2) 172 253 = \<lfloor>s\<rfloor>"
    using s0 by (simp add: channel_def py_int_def s_def be_def)
  ultimately show ?thesis by simp
qed

text \<open>
  Claim C3, counterexample.  As stated the claim fails: a channel is the interpolated value truncated by \<open>int\<close>, not
  rounded.  For a gradient of height 8 from black to \<open>(1, 1, 1)\<close>, row 3 has blend factor
  \<open>3/4\<close> (every float operation is exact here), the interpolated value is \<open>0.75\<close>, the code
  draws the channel 0 and rounding gives 1.
\<close>

theorem gradient_channel_truncates_counterexample:
  "blend 8 3 = 3 / 4 \<and> spec_blend 8 3 = 3 / 4
   \<and> draw_gradient [] 1 8 (0, 0, 0) (1, 1, 1) ! 3 = Line (0, 3) (1, 3) (RGB 0 0 0) 1
   \<and> channel 8 3 0 1 = 0 \<and> spec_channel 8 3 0 1 = 1"
proof -
  have a: "blend 8 3 = 3 / 4"
    by (simp add: blend_def float_ops fl_dyadic)
  have b: "spec_blend 8 3 = 3 / 4"
    by (simp add: spec_blend_def)
  have c: "channel 8 3 0 1 = 0"
    by (simp add: channel_def a float_ops fl_dyadic py_int_def)
  have d: "spec_channel 8 3 0 1 = 1"
    by (simp add: spec_channel_def b round_half_even_def floor_numeral_div)
  have e: "draw_gradient [] 1 8 (0, 0, 0) (1, 1, 1) ! 3 = Line (0, 3) (1, 3) (RGB 0 0 0) 1"
    using draw_gradient_nth[of 3 8 "[]" 1 "(0, 0, 0)" "(1, 1, 1)"]
    by (simp add: gradient_color_def c)
  from a b c d e show ?thesis by simp
qed

text \<open>
  Claim C3, amended.  For every row \<open>i\<close> with \<open>0 \<le> i < h\<close> (and \<open>h\<close> at most \<open>2^53\<close>),
  \<open>draw_gradient\<close> draws for row \<open>i\<close> the line from \<open>(0, i)\<close> to \<open>(w, i)\<close> of width 1 in
  the colour \<open>gradient_color h i\<close>, whose channels are computed one by one; the blend factor
  is \<open>2 * i / h\<close> rounded to a double when \<open>i \<le> h / 2\<close>, and \<open>2 - 2 * i / h\<close> in doubles
  otherwise, and lies between 0 and 1; for 8-bit channels \<open>t\<close> and \<open>b\<close> the channel is
  \<open>int(t * (1 - blend) + b * blend)\<close>, the double value truncated (not rounded), that value
  is within \<open>2^-42\<close> of the exact interpolation, and the channel lies in \<open>[0, 255]\<close>.
\<close>

theorem gradient_row_colour:
  assumes "0 \<le> i" and "i < h" and "h \<le> 2 ^ 53"
    and "0 \<le> t \<and> t \<le> 255" and "0 \<le> b \<and> b \<le> 255"
  shows "draw_gradient d w h top_color bottom_color ! (length d + nat i)
           = Line (0, i) (w, i) (gradient_color h i top_color bottom_color) 1
   \<and> gradient_color h i (tr, tg, tb) (br, bg, bb)
           = RGB (channel h i tr br) (channel h i tg bg) (channel h i tb bb)
   \<and> blend h i = (if (of_int i :: rat) \<le> of_int h / 2 then fl (2 * of_int i / of_int h)
                   else fl (2 - fl (2 * of_int i / of_int h)))
   \<and> 0 \<le> blend h i \<and> blend h i \<le> 1
   \<and> channel h i t b
         = py_int (fl (fl (of_int t * fl (1 - blend h i)) + fl (of_int b * blend h i)))
   \<and> \<bar>fl (fl (of_int t * fl (1 - blend h i)) + fl (of_int b * blend h i))
        - (of_int t * (1 - blend h i) + of_int b * blend h i)\<bar> \<le> 1 / 2 ^ 42
   \<and> 0 \<le> channel h i t b \<and> channel h i t b \<le> 255"
proof -
  have "\<bar>t\<bar> \<le> 255" "\<bar>b\<bar> \<le> 255" using assms by linarith+
  then have "\<bar>t\<bar> \<le> 2 ^ 53" "\<bar>b\<bar> \<le> 2 ^ 53" by simp_all
  then have pt: "py_float t = of_int t" and pb: "py_float b = of_int b"
    by (simp_all add: py_float_exact)
  have c1: "draw_gradient d w h top_color bottom_color ! (length d + nat i)
           = Line (0, i) (w, i) (gradient_color h i top_color bottom_color) 1"
    using assms(1,2) by (rule draw_gradient_nth)
  have c2: "gradient_color h i (tr, tg, tb) (br, bg, bb)
           = RGB (channel h i tr br) (channel h i tg bg) (channel h i tb bb)"
    by (simp add: gradient_color_def)
  note c3 = blend_eq[OF assms(1-3)]
  from blend_range[OF assms(1-3)] have c4: "0 \<le> blend h i" "blend h i \<le> 1" by auto
  have c5: "channel h i t b
         = py_int (fl (fl (of_int t * fl (1 - blend h i)) + fl (of_int b * blend h i)))"
    by (simp add: channel_def fadd_def fmul_def fsub_def pt pb)
  have "\<bar>fadd (fmul (py_float t) (fsub 1 (blend h i))) (fmul (py_float b) (blend h i))
          - (of_int t * (1 - blend h i) + of_int b * blend h i)\<bar> \<le> 2048 * eps"
    using assms(4,5) c4 by (intro mix_close) simp_all
  then have c6: "\<bar>fl (fl (of_int t * fl (1 - blend h i)) + fl (of_int b * blend h i))
        - (of_int t * (1 - blend h i) + of_int b * blend h i)\<bar> \<le> 1 / 2 ^ 42"
    by (simp add: fadd_def fmul_def fsub_def pt pb eps_def)
  have c7: "0 \<le> channel h i t b \<and> channel h i t b \<le> 255"
    using assms by (intro channel_range) simp_all
  from c1 c2 c3 c4 c5 c6 c7 show ?thesis by blast
qed

text \<open>
  Claim C3, witness: the last row of the program's canvas, row 981 of 982, with its two
  colours.
\<close>

theorem gradient_row_colour_witness:
  "(0::int) \<le> 981 \<and> (981::int) < 982
   \<and> draw_gradient [] 692 982 (172, 203, 242) (253, 153, 101) ! (length ([] :: canvas) + nat 981)
      = Line (0, 981) (692, 981) (gradient_color 982 981 (172, 203, 242) (253, 153, 101)) 1
   \<and> gradient_color 982 981 (172, 203, 242) (253, 153, 101)
      = RGB (channel 982 981 172 253) (channel 982 981 203 153) (channel 982 981 242 101)
   \<and> 0 \<le> blend 982 981 \<and> blend 982 981 \<le> 1
   \<and> 0 \<le> channel 982 981 203 153 \<and> channel 982 981 203 153 \<le> 255"
proof -
  have h: "(0::int) \<le> 981" "(981::int) < 982" "(982::int) \<le> 2 ^ 53"
    "(0::int) \<le> 203 \<and> (203::int) \<le> 255" "(0::int) \<le> 153 \<and> (153::int) \<le> 255"
    by simp_all
  from h(1,2)
    gradient_row_colour[where d = "[]" and w = 692 and top_color = "(172, 203, 242)"
      and bottom_color = "(253, 153, 101)" and tr = 172 and tg = 203 and tb = 242
      and br = 253 and bg = 153 and bb = 101, OF h]
  show ?thesis by blast
qed

text \<open>
  Claim C4, counterexample.  As stated for every height the claim fails.  With the program's colours and height 4,
  row 3 is \<open>(212, 178, 171)\<close>, forty away from the top colour; with height 3, row
  \<open>3 // 2\<close> is not the bottom colour.
\<close>

theorem gradient_edges_counterexample:
  "gradient_color 4 (4 - 1) (172, 203, 242) (253, 153, 101) = RGB 212 178 171
   \<and> gradient_color 3 (3 div 2) (172, 203, 242) (253, 153, 101) \<noteq> RGB 253 153 101"
proof -
  have a: "gradient_color 4 (4 - 1) (172, 203, 242) (253, 153, 101) = RGB 212 178 171"
    by (simp add: gradient_color_def channel_def blend_def float_ops fl_dyadic py_int_def)
  have "channel 3 (3 div 2) 172 253 \<noteq> 253" using channel_odd_height by simp
  then have b: "gradient_color 3 (3 div 2) (172, 203, 242) (253, 153, 101) \<noteq> RGB 253 153 101"
    by (simp add: gradient_color_def)
  from a b show ?thesis by simp
qed

text \<open>
  Claim C4, amended.  For an even height \<open>h\<close> with \<open>512 \<le> h \<le> 2^53\<close> and 8-bit colours
  (in particular for height 982 and the program's colours), row 0 has exactly the top
  colour, row \<open>h // 2\<close> has exactly the bottom colour, and every channel of row \<open>h - 1\<close>
  differs from the top colour's by at most 1.
\<close>

theorem gradient_edges:
  assumes "512 \<le> h" and "h \<le> 2 ^ 53" and "even h"
    and "0 \<le> tr \<and> tr \<le> 255" and "0 \<le> tg \<and> tg \<le> 255" and "0 \<le> tb \<and> tb \<le> 255"
    and "0 \<le> br \<and> br \<le> 255" and "0 \<le> bg \<and> bg \<le> 255" and "0 \<le> bb \<and> bb \<le> 255"
  shows "draw_gradient d w h (tr, tg, tb) (br, bg, bb) ! (length d + nat 0)
           = Line (0, 0) (w, 0) (RGB tr tg tb) 1
   \<and> draw_gradient d w h (tr, tg, tb) (br, bg, bb) ! (length d + nat (h div 2))
           = Line (0, h div 2) (w, h div 2) (RGB br bg bb) 1
   \<and> (\<exists>r g b. draw_gradient d w h (tr, tg, tb) (br, bg, bb) ! (length d + nat (h - 1))
                 = Line (0, h - 1) (w, h - 1) (RGB r g b) 1
              \<and> \<bar>r - tr\<bar> \<le> 1 \<and> \<bar>g - tg\<bar> \<le> 1 \<and> \<bar>b - tb\<bar> \<le> 1)"
proof -
  have h0: "0 < h" using assms(1) by simp
  have first: "channel h 0 tr br = tr" "channel h 0 tg bg = tg" "channel h 0 tb bb = tb"
    using assms h0 by (simp_all add: channel_first)
  have mid: "channel h (h div 2) tr br = br" "channel h (h div 2) tg bg = bg"
      "channel h (h div 2) tb bb = bb"
    using assms h0 by (simp_all add: channel_middle)
  have last: "\<bar>channel h (h - 1) tr br - tr\<bar> \<le> 1" "\<bar>channel h (h - 1) tg bg - tg\<bar> \<le> 1"
      "\<bar>channel h (h - 1) tb bb - tb\<bar> \<le> 1"
    using assms by (simp_all add: channel_last)
  have n0: "draw_gradient d w h (tr, tg, tb) (br, bg, bb) ! (length d + nat 0)
           = Line (0, 0) (w, 0) (RGB tr tg tb) 1"
    using h0 draw_gradient_nth[of 0 h d w] by (simp add: gradient_color_def first)
  have n1: "draw_gradient d w h (tr, tg, tb) (br, bg, bb) ! (length d + nat (h div 2))
           = Line (0, h div 2) (w, h div 2) (RGB br bg bb) 1"
    using h0 draw_gradient_nth[of "h div 2" h d w] by (simp add: gradient_color_def mid)
  have n2: "draw_gradient d w h (tr, tg, tb) (br, bg, bb) ! (length d + nat (h - 1))
           = Line (0, h - 1) (w, h - 1)
               (RGB (channel h (h - 1) tr br) (channel h (h - 1) tg bg) (channel h (h - 1) tb bb)) 1"
    using h0 draw_gradient_nth[of "h - 1" h d w] by (simp add: gradient_color_def)
  from n0 n1 n2 last show ?thesis by blast
qed

text \<open>
  Claim C4, witness: the canvas of the program, of height 982, from \<open>#accbf2\<close> to
  \<open>#fd9965\<close>.
\<close>

theorem gradient_edges_witness:
  "draw_gradient [] 692 982 (172, 203, 242) (253, 153, 101) ! 0
           = Line (0, 0) (692, 0) (RGB 172 203 242) 1
   \<and> draw_gradient [] 692 982 (172, 203, 242) (253, 153, 101) ! 491
           = Line (0, 491) (692, 491) (RGB 253 153 101) 1
   \<and> (\<exists>r g b. draw_gradient [] 692 982 (172, 203, 242) (253, 153, 101) ! 981
                 = Line (0, 981) (692, 981) (RGB r g b) 1
              \<and> \<bar>r - 172\<bar> \<le> 1 \<and> \<bar>g - 203\<bar> \<le> 1 \<and> \<bar>b - 242\<bar> \<le> 1)"
  using gradient_edges[of 982 172 203 242 253 153 101 "[]" 692] by simp

section \<open>The table\<close>

lemma spec_cell_shift:
  "spec_cell x y cw rh fnt fill (Suc r) = spec_cell x (y + rh) cw rh fnt fill r"
  by (rule ext) (simp add: spec_cell_def Let_def algebra_simps)

lemma spec_row_shift:
  "spec_row x y cw rh fnt fill (Suc r) cells = spec_row x (y + rh) cw rh fnt fill r cells"
  by (simp add: spec_row_def spec_cell_shift)

lemma draw_cells_fit:
  "c + length ss \<le> length cw \<Longrightarrow>
   draw_cells d x y cw rh fnt fill c (map JStr ss)
     = (d @ concat (map (spec_cell x y cw rh fnt fill 0) (enumerate c ss)), None)"
proof (induction ss arbitrary: d c)
  case Nil
  then show ?case by simp
next
  case (Cons s ss)
  from Cons.prems have c: "c < length cw" and rest: "Suc c + length ss \<le> length cw" by simp_all
  show ?case
    using c by (simp add: Let_def Cons.IH[OF rest] spec_cell_def)
qed

lemma draw_cells_overflow:
  "c \<le> length cw \<Longrightarrow> length cw < c + length ss \<Longrightarrow>
   snd (draw_cells d x y cw rh fnt fill c (map JStr ss)) = Some IndexError"
proof (induction ss arbitrary: d c)
  case Nil
  then show ?case by simp
next
  case (Cons s ss)
  show ?case
  proof (cases "length cw \<le> c")
    case True
    then show ?thesis by (simp add: Let_def)
  next
    case False
    with Cons.prems have "Suc c \<le> length cw" "length cw < Suc c + length ss" by simp_all
    from Cons.IH[OF this] False show ?thesis by (simp add: Let_def)
  qed
qed

lemma fits_iff: "fits n rows = (\<forall>row \<in> set rows. length row \<le> n)"
  by (induction rows) auto

lemma draw_rows_fit:
  "fits (length cw) rows \<Longrightarrow>
   draw_rows d x y cw rh fnt (map (\<lambda>row. JArr (map JStr row)) rows)
     = (d @ concat (map (\<lambda>rr. spec_row x y cw rh fnt data_fill (fst rr) (snd rr))
                      (enumerate 0 rows)), None)"
proof (induction rows arbitrary: d y)
  case Nil
  then show ?case by simp
next
  case (Cons row rows)
  from Cons.prems have row: "0 + length row \<le> length cw" and rest: "fits (length cw) rows"
    by simp_all
  have shift: "map (\<lambda>rr. spec_row x y cw rh fnt data_fill (fst rr) (snd rr)) (enumerate (Suc 0) rows)
             = map (\<lambda>rr. spec_row x (y + rh) cw rh fnt data_fill (fst rr) (snd rr)) (enumerate 0 rows)"
    by (simp add: enumerate_Suc_eq comp_def spec_row_shift)
  show ?case
    by (simp add: draw_cells_fit[OF row] Cons.IH[OF rest] shift)
       (simp add: spec_row_def)
qed

lemma draw_rows_overflow:
  "\<not> fits (length cw) rows \<Longrightarrow>
   snd (draw_rows d x y cw rh fnt (map (\<lambda>row. JArr (map JStr row)) rows)) = Some IndexError"
proof (induction rows arbitrary: d y)
  case Nil
  then show ?case by simp
next
  case (Cons row rows)
  show ?case
  proof (cases "length row \<le> length cw")
    case True
    with Cons.prems have rest: "\<not> fits (length cw) rows" by simp
    from True have row: "0 + length row \<le> length cw" by simp
    show ?thesis by (simp add: draw_cells_fit[OF row] Cons.IH[OF rest])
  next
    case False
    then have "length cw < 0 + length row" by simp
    from draw_cells_overflow[OF _ this, of d x y rh fnt data_fill]
    obtain d1 where "draw_cells d x y cw rh fnt data_fill 0 (map JStr row) = (d1, Some IndexError)"
      by (cases "draw_cells d x y cw rh fnt data_fill 0 (map JStr row)") simp
    then show ?thesis by simp
  qed
qed

lemma draw_table_header_overflow:
  assumes "truetype e font_path"
    and "map_of items ''columns'' = Some (JArr (map JStr cols))"
    and "length cw < length cols"
  shows "snd (draw_table e d x y (JObj items) cw rh font_path) = Some IndexError"
proof -
  from assms(3) have "length cw < 0 + length cols" by simp
  from draw_cells_overflow[OF _ this, of d x y rh "(font_path, 16)" header_fill]
  obtain d1 where
    "draw_cells d x y cw rh (font_path, 16) header_fill 0 (map JStr cols) = (d1, Some IndexError)"
    by (cases "draw_cells d x y cw rh (font_path, 16) header_fill 0 (map JStr cols)") simp
  then show ?thesis using assms(1,2) by (simp add: draw_table_def)
qed

lemma draw_table_header_fit:
  assumes "truetype e font_path"
    and "map_of items ''columns'' = Some (JArr (map JStr cols))"
    and "map_of items ''data'' = Some (JArr (map (\<lambda>row. JArr (map JStr row)) rows))"
    and "length cols \<le> length cw"
  shows "draw_table e d x y (JObj items) cw rh font_path
     = draw_rows (d @ spec_row x y cw rh (font_path, 16) header_fill 0 cols) x (y + rh) cw rh
         (font_path, 16) (map (\<lambda>row. JArr (map JStr row)) rows)"
proof -
  from assms(4) have "0 + length cols \<le> length cw" by simp
  from draw_cells_fit[OF this, of d x y rh "(font_path, 16)" header_fill]
  show ?thesis using assms(1-3)
    by (simp add: draw_table_def spec_row_def Let_def)
qed

lemma spec_rows_shift:
  "map (\<lambda>rr. spec_row x (y + rh) cw rh fnt fill (fst rr) (snd rr)) (enumerate 0 rows)
   = map (\<lambda>rr. spec_row x y cw rh fnt fill (Suc (fst rr)) (snd rr)) (enumerate 0 rows)"
  by (simp add: spec_row_shift)

lemma draw_table_fits:
  assumes "truetype e font_path"
    and "map_of items ''columns'' = Some (JArr (map JStr cols))"
    and "map_of items ''data'' = Some (JArr (map (\<lambda>row. JArr (map JStr row)) rows))"
    and "length cols \<le> length cw"
    and "fits (length cw) rows"
  shows "draw_table e d x y (JObj items) cw rh font_path
           = (d @ spec_table x y cw rh (font_path, 16) cols rows, None)"
  by (simp add: draw_table_header_fit[OF assms(1-4)] draw_rows_fit[OF assms(5)]
      spec_rows_shift spec_table_def)

text \<open>
  Claim C6.  For a record set of string cells whose header and rows have no more cells
  than there are column widths, and a font that loads, \<open>draw_table\<close> makes exactly the
  calls of \<open>spec_table\<close>: the cell of column \<open>c\<close> starts at the anchor's x plus the sum of
  the widths of columns \<open>0..c-1\<close>, the header is drawn at the anchor's y and data row \<open>r\<close>
  at the anchor's y plus \<open>(r + 1) * row_height\<close>.  For widths \<open>[200, 350]\<close> the second
  column starts at the anchor's x plus 200.
\<close>

theorem draw_table_layout:
  assumes "truetype e font_path"
    and "map_of items ''columns'' = Some (JArr (map JStr cols))"
    and "map_of items ''data'' = Some (JArr (map (\<lambda>row. JArr (map JStr row)) rows))"
    and "length cols \<le> length cw"
    and "fits (length cw) rows"
  shows "draw_table e d x y (JObj items) cw rh font_path
           = (d @ spec_table x y cw rh (font_path, 16) cols rows, None)
   \<and> spec_cell x y [200, 350] rh fnt fill r (1, s)
           = [Rectangle (x + 200) (y + int r * rh) (x + 200 + 350) (y + int r * rh + rh)
                (fill 1) (Named ''black''),
              Text (x + 200 + 10, y + int r * rh + 10) s fnt (Named ''black'')]"
proof -
  have a: "draw_table e d x y (JObj items) cw rh font_path
           = (d @ spec_table x y cw rh (font_path, 16) cols rows, None)"
    using assms by (rule draw_table_fits)
  have b: "spec_cell x y [200, 350] rh fnt fill r (1, s)
           = [Rectangle (x + 200) (y + int r * rh) (x + 200 + 350) (y + int r * rh + rh)
                (fill 1) (Named ''black''),
              Text (x + 200 + 10, y + int r * rh + 10) s fnt (Named ''black'')]"
    by (simp add: spec_cell_def Let_def)
  from a b show ?thesis by simp
qed

text \<open>
  Claim C9.  For a record set of string cells and a font that loads, \<open>draw_table\<close> raises
  \<open>IndexError\<close> exactly when the header or some data row has more cells than there are
  column widths, and returns normally otherwise: with a longer data row it raises, and
  when every data row fits, the data loop raises nothing.
\<close>

theorem draw_table_index_error:
  assumes "truetype e font_path"
    and "map_of items ''columns'' = Some (JArr (map JStr cols))"
    and "map_of items ''data'' = Some (JArr (map (\<lambda>row. JArr (map JStr row)) rows))"
  shows "snd (draw_table e d x y (JObj items) cw rh font_path)
           = (if length cw < length cols \<or> (\<exists>row \<in> set rows. length cw < length row)
              then Some IndexError else None)"
proof (cases "length cw < length cols")
  case True
  with draw_table_header_overflow[OF assms(1,2) True] show ?thesis by simp
next
  case False
  then have hd: "length cols \<le> length cw" by simp
  show ?thesis
  proof (cases "fits (length cw) rows")
    case True
    from draw_rows_fit[OF True] True False show ?thesis
      by (simp add: draw_table_header_fit[OF assms hd] fits_iff not_less)
  next
    case f: False
    then have "\<exists>row \<in> set rows. length cw < length row" by (auto simp: fits_iff not_le)
    with draw_rows_overflow[OF f] show ?thesis
      by (simp add: draw_table_header_fit[OF assms hd])
  qed
qed

lemma record_set_lookups:
  "map_of [(''columns'', JArr (map JStr cols)),
           (''data'', JArr (map (\<lambda>row. JArr (map JStr row)) rows))] ''columns''
     = Some (JArr (map JStr cols))"
  "map_of [(''columns'', JArr (map JStr cols)),
           (''data'', JArr (map (\<lambda>row. JArr (map JStr row)) rows))] ''data''
     = Some (JArr (map (\<lambda>row. JArr (map JStr row)) rows))"
  by simp_all

lemma sample_font: "truetype sample_env ''font.ttf''"
  by (simp add: sample_env_def)

text \<open>
  Claim C6, witness: the table of two columns and one row, at the anchor the program
  computes.
\<close>

theorem draw_table_layout_witness:
  "draw_table sample_env [] 71 543 (record_set [''A'', ''B''] [[''1'', ''2'']]) [200, 350] 40
     ''font.ttf''
   = ([Rectangle 71 543 271 583 (Named ''#FFD700'') (Named ''black''),
       Text (81, 553) ''A'' (''font.ttf'', 16) (Named ''black''),
       Rectangle 271 543 621 583 (Named ''#FFD700'') (Named ''black''),
       Text (281, 553) ''B'' (''font.ttf'', 16) (Named ''black''),
       Rectangle 71 583 271 623 (Named ''#E6E6FA'') (Named ''black''),
       Text (81, 593) ''1'' (''font.ttf'', 16) (Named ''black''),
       Rectangle 271 583 621 623 (Named ''#98FB98'') (Named ''black''),
       Text (281, 593) ''2'' (''font.ttf'', 16) (Named ''black'')], None)"
proof -
  have len: "length [''A'', ''B''] \<le> length [200, 350 :: int]" by simp
  have fit: "fits (length [200, 350 :: int]) [[''1'', ''2'']]" by simp
  from draw_table_layout[OF sample_font record_set_lookups len fit,
      where d = "[]" and x = 71 and y = 543 and rh = 40]
  have "draw_table sample_env [] 71 543 (record_set [''A'', ''B''] [[''1'', ''2'']]) [200, 350] 40
     ''font.ttf''
     = ([] @ spec_table 71 543 [200, 350] 40 (''font.ttf'', 16) [''A'', ''B''] [[''1'', ''2'']],
        None)"
    by (simp only: record_set_def)
  then show ?thesis
    by (simp add: spec_table_def spec_row_def spec_cell_def header_fill_def data_fill_def)
qed

text \<open>
  Claim C9, witness: a row of three cells against two column widths raises; a row of two
  does not.
\<close>

theorem draw_table_index_error_witness:
  "snd (draw_table sample_env [] 71 543 (record_set [''A'', ''B''] [[''1'', ''2'', ''3'']])
          [200, 350] 40 ''font.ttf'') = Some IndexError
   \<and> snd (draw_table sample_env [] 71 543 (record_set [''A'', ''B''] [[''1'', ''2'']])
          [200, 350] 40 ''font.ttf'') = None"
proof -
  from draw_table_index_error[OF sample_font record_set_lookups,
      where d = "[]" and x = 71 and y = 543 and rh = 40 and cw = "[200, 350]"
        and cols = "[''A'', ''B'']" and rows = "[[''1'', ''2'', ''3'']]"]
  have a: "snd (draw_table sample_env [] 71 543 (record_set [''A'', ''B''] [[''1'', ''2'', ''3'']])
          [200, 350] 40 ''font.ttf'') = Some IndexError"
    by (simp add: record_set_def)
  from draw_table_index_error[OF sample_font record_set_lookups,
      where d = "[]" and x = 71 and y = 543 and rh = 40 and cw = "[200, 350]"
        and cols = "[''A'', ''B'']" and rows = "[[''1'', ''2'']]"]
  have b: "snd (draw_table sample_env [] 71 543 (record_set [''A'', ''B''] [[''1'', ''2'']])
          [200, 350] 40 ''font.ttf'') = None"
    by (simp add: record_set_def)
  from a b show ?thesis by simp
qed

section \<open>The layout\<close>

lemma outer_radius_eq: "outer_radius = 45"
  by (simp add: outer_radius_def flower_scale_def float_ops fl_dyadic py_int_def)

lemma top_space_eq: "top_space = 137"
  by (simp add: top_space_def outer_radius_eq margin_def flower_scale_def float_ops fl_dyadic
      py_int_def)

lemma element_positions_eq:
  "element_positions = [(35, 137), (35, 340), (357, 137), (357, 340)]"
  by (simp add: element_positions_def top_space_eq margin_def width_def placeholder_size_def)

lemma logo_position_eq: "logo_position = (256, - 10)"
  by (simp add: logo_position_def width_def logo_size_def margin_def outer_radius_eq)

lemma table_top_left_x_eq: "table_top_left_x = 71"
  by (simp add: table_top_left_x_def width_def col_widths_def)

lemma table_top_left_y_eq: "table_top_left_y = Inr 543"
  by (simp add: table_top_left_y_def py_max_def element_positions_eq placeholder_size_def
      margin_def)

text \<open>
  Claim C8.  With width 692, margin 35, flower scale 1.5 (outer radius 45) and slots of
  300 by 168, the four slots the procedure computes are pairwise disjoint.
\<close>

theorem placeholder_slots_disjoint:
  "outer_radius = 45
   \<and> element_positions = [(35, 137), (35, 340), (357, 137), (357, 340)]
   \<and> map slot element_positions
       = [(35, 137, 335, 305), (35, 340, 335, 508), (357, 137, 657, 305), (357, 340, 657, 508)]
   \<and> pairwise_disjoint (map slot element_positions)"
  by (simp add: outer_radius_eq element_positions_eq slot_def placeholder_size_def overlap_def)

section \<open>The flower\<close>

text \<open>The calls of \<open>draw_flower\<close>: five petals, then the centre disc.\<close>

lemma petal_loop_eq:
  "petal_loop e d x y inner outer n ks = d @ map (petal e x y inner outer n) ks"
  by (induction ks arbitrary: d) simp_all

lemma upto_0_4: "[0..4] = [0, 1, 2, 3, 4 :: int]"
  by code_simp


lemma draw_flower_calls:
  "draw_flower e d x y scale
     = d @ map (petal e x y (fmul 10 scale) (fmul 30 scale) 5) [0, 1, 2, 3, 4]
         @ [Ellipse (fsub (py_float x) (fmul 10 scale)) (fsub (py_float y) (fmul 10 scale))
              (fadd (py_float x) (fmul 10 scale)) (fadd (py_float y) (fmul 10 scale))
              (Named ''yellow'')]"
  by (simp add: draw_flower_def Let_def petal_loop_eq upto_0_4)















section \<open>The composition\<close>

lemma paste_placeholders_prefix: "\<exists>ps r. paste_placeholders e d xs = (d @ ps, r)"
proof (induction xs arbitrary: d)
  case Nil
  then show ?case by simp
next
  case (Cons a xs)
  obtain position img_path where a: "a = (position, img_path)" by (cases a)
  show ?case
  proof (cases "image_open e img_path")
    case (Inl err)
    then show ?thesis by (simp add: a)
  next
    case (Inr im)
    from Cons.IH[of "d @ [Paste (resize (convert im ''RGBA'') placeholder_size) position None]"]
    show ?thesis by (auto simp: a Inr)
  qed
qed

lemma draw_cells_prefix: "\<exists>ops r. draw_cells d x y cw rh fnt fill c cells = (d @ ops, r)"
proof (induction cells arbitrary: d c)
  case Nil
  then show ?case by simp
next
  case (Cons cell cells)
  show ?case
  proof (cases "length cw \<le> c")
    case True
    then show ?thesis by (simp add: Let_def)
  next
    case False
    show ?thesis
    proof (cases cell)
      case (JStr s)
      from Cons.IH[of "(d @ [Rectangle (x + sum_list (take c cw)) y
                (x + sum_list (take c cw) + cw ! c) (y + rh) (fill c) (Named ''black'')])
             @ [Text (x + sum_list (take c cw) + 10, y + 10) s fnt (Named ''black'')]" "Suc c"]
      show ?thesis using False by (auto simp: Let_def JStr)
    qed (use False in \<open>simp_all add: Let_def\<close>)
  qed
qed

lemma draw_rows_prefix: "\<exists>ops r. draw_rows d x y cw rh fnt rows = (d @ ops, r)"
proof (induction rows arbitrary: d y)
  case Nil
  then show ?case by simp
next
  case (Cons row rows)
  show ?case
  proof (cases "py_iter row")
    case (Inl err)
    then show ?thesis by simp
  next
    case (Inr cells)
    obtain ops r where c: "draw_cells d x y cw rh fnt data_fill 0 cells = (d @ ops, r)"
      using draw_cells_prefix by blast
    show ?thesis
    proof (cases r)
      case None
      from Cons.IH[of "d @ ops" "y + rh"] show ?thesis by (auto simp: Inr c None)
    next
      case (Some err)
      then show ?thesis by (simp add: Inr c)
    qed
  qed
qed

lemma draw_table_prefix: "\<exists>ops r. draw_table e d x y table_data cw rh font_path = (d @ ops, r)"
proof (cases "truetype e font_path")
  case False
  then show ?thesis by (simp add: draw_table_def)
next
  case True
  show ?thesis
  proof (cases "py_getitem table_data ''columns''")
    case (Inl err)
    then show ?thesis using True by (simp add: draw_table_def)
  next
    case columns: (Inr columns)
    show ?thesis
    proof (cases "py_iter columns")
      case (Inl err)
      then show ?thesis using True columns by (simp add: draw_table_def)
    next
      case cols: (Inr cols)
      obtain ops r where
        c: "draw_cells d x y cw rh (font_path, 16) header_fill 0 cols = (d @ ops, r)"
        using draw_cells_prefix by blast
      show ?thesis
      proof (cases r)
        case (Some err)
        then show ?thesis using True columns cols c by (simp add: draw_table_def)
      next
        case None
        show ?thesis
        proof (cases "py_getitem table_data ''data''")
          case (Inl err)
          then show ?thesis using True columns cols c None by (simp add: draw_table_def)
        next
          case data: (Inr data)
          show ?thesis
          proof (cases "py_iter data")
            case (Inl err)
            then show ?thesis using True columns cols c None data by (simp add: draw_table_def)
          next
            case (Inr rows)
            obtain ops' r' where
              "draw_rows (d @ ops) x (y + rh) cw rh (font_path, 16) rows = ((d @ ops) @ ops', r')"
              using draw_rows_prefix by blast
            then show ?thesis using True columns cols c None data Inr
              by (simp add: draw_table_def)
          qed
        qed
      qed
    qed
  qed
qed

lemma draw_table_empty_dict:
  "truetype e font_path \<Longrightarrow>
   draw_table e d x y (JObj []) cw rh font_path = (d, Some KeyError)"
  by (simp add: draw_table_def)

lemma draw_table_empty_record_set:
  "truetype e font_path \<Longrightarrow>
   draw_table e d x y (record_set [] []) cw rh font_path = (d, None)"
  by (simp add: draw_table_def record_set_def)

lemma load_json_file_handled:
  "read_json e filepath = Inl FileNotFoundError \<or> read_json e filepath = Inl JSONDecodeError \<Longrightarrow>
   snd (load_json_file e filepath) = Inr (JObj [])"
  by (auto simp: load_json_file_def)

lemma paste_four:
  assumes "image_open e p1 = Inr i1" "image_open e p2 = Inr i2"
    "image_open e p3 = Inr i3" "image_open e p4 = Inr i4"
  shows "paste_placeholders e d (zip element_positions [p1, p2, p3, p4])
     = (d @ [Paste (resize (convert i1 ''RGBA'') placeholder_size) (35, 137) None,
             Paste (resize (convert i2 ''RGBA'') placeholder_size) (35, 340) None,
             Paste (resize (convert i3 ''RGBA'') placeholder_size) (357, 137) None,
             Paste (resize (convert i4 ''RGBA'') placeholder_size) (357, 340) None], None)"
  using assms by (simp add: element_positions_eq)

lemma create_after_logo:
  assumes "image_open e logo_path = Inr im"
  shows "\<exists>rest. drawn (create_composite_image_with_gradient e logo_path p1 p2 p3 p4 path_out
                   font_path filepath)
     = draw_flower e
         (draw_flower e (draw_gradient [] width height (172, 203, 242) (253, 153, 101))
            (margin + outer_radius) (margin + outer_radius) flower_scale)
         (width - margin - outer_radius) (margin + outer_radius) flower_scale
       @ Paste (thumbnail e (convert im ''RGBA'') (logo_size, logo_size)) logo_position
           (Some (thumbnail e (convert im ''RGBA'') (logo_size, logo_size))) # rest"
proof -
  define d3 where "d3 = draw_flower e
         (draw_flower e (draw_gradient [] width height (172, 203, 242) (253, 153, 101))
            (margin + outer_radius) (margin + outer_radius) flower_scale)
         (width - margin - outer_radius) (margin + outer_radius) flower_scale"
  define logo where "logo = thumbnail e (convert im ''RGBA'') (logo_size, logo_size)"
  define d4 where "d4 = d3 @ [Paste logo logo_position (Some logo)]"
  obtain ps r where pp:
    "paste_placeholders e d4 (zip element_positions [p1, p2, p3, p4]) = (d4 @ ps, r)"
    using paste_placeholders_prefix by blast
  obtain out lr where lj: "load_json_file e filepath = (out, lr)"
    by (cases "load_json_file e filepath")
  have unfold: "create_composite_image_with_gradient e logo_path p1 p2 p3 p4 path_out
                   font_path filepath
     = (case r of
          Some err \<Rightarrow> \<lparr>drawn = d4 @ ps, printed = [], result = Inl err\<rparr>
        | None \<Rightarrow>
            (case lr of
               Inl err \<Rightarrow> \<lparr>drawn = d4 @ ps, printed = out, result = Inl err\<rparr>
             | Inr table_data \<Rightarrow>
                 (case draw_table e (d4 @ ps) table_top_left_x 543 table_data
                         col_widths row_height font_path of
                    (d6, Some err) \<Rightarrow> \<lparr>drawn = d6, printed = out, result = Inl err\<rparr>
                  | (d6, None) \<Rightarrow>
                      (case save_image e (path_out @ ''/gradient_flowers_composite_image.png'') of
                         Some err \<Rightarrow> \<lparr>drawn = d6, printed = out, result = Inl err\<rparr>
                       | None \<Rightarrow>
                           \<lparr>drawn = d6, printed = out,
                            result = Inr (path_out @ ''/gradient_flowers_composite_image.png'')\<rparr>))))"
    using assms pp lj
    by (simp add: create_composite_image_with_gradient_def hex_to_rgb_blue hex_to_rgb_orange Let_def
        table_top_left_y_eq d3_def[symmetric] logo_def[symmetric] d4_def[symmetric])
  have "\<exists>rest. drawn (create_composite_image_with_gradient e logo_path p1 p2 p3 p4 path_out
                   font_path filepath) = d4 @ rest"
  proof (cases r)
    case (Some err)
    then show ?thesis by (simp add: unfold)
  next
    case None
    show ?thesis
    proof (cases lr)
      case (Inl err)
      then show ?thesis by (simp add: unfold None)
    next
      case (Inr table_data)
      obtain ts tr where
        "draw_table e (d4 @ ps) table_top_left_x 543 table_data
           col_widths row_height font_path = ((d4 @ ps) @ ts, tr)"
        using draw_table_prefix by blast
      then show ?thesis
        by (simp add: unfold None Inr split: option.splits)
    qed
  qed
  then show ?thesis by (simp add: d4_def d3_def logo_def)
qed

lemma create_missing_json:
  assumes js: "read_json e filepath = Inl FileNotFoundError
               \<or> read_json e filepath = Inl JSONDecodeError"
    and font: "truetype e font_path"
    and logo: "image_open e logo_path = Inr im"
    and imgs: "image_open e p1 = Inr i1" "image_open e p2 = Inr i2"
      "image_open e p3 = Inr i3" "image_open e p4 = Inr i4"
  shows "result (create_composite_image_with_gradient e logo_path p1 p2 p3 p4 path_out
                   font_path filepath) = Inl KeyError"
proof -
  obtain out where lj: "load_json_file e filepath = (out, Inr (JObj []))"
    using load_json_file_handled[OF js] by (cases "load_json_file e filepath") simp
  show ?thesis
    using logo
    by (simp add: create_composite_image_with_gradient_def hex_to_rgb_blue hex_to_rgb_orange Let_def
        paste_four[OF imgs] table_top_left_y_eq lj draw_table_empty_dict[OF font])
qed

lemma sample_images:
  "image_open sample_env ''logo.png''
     = Inr \<lparr>im_source = ''logo.png'', im_mode = ''RGB'', im_size = (100, 100)\<rparr>"
  "image_open sample_env ''1.png''
     = Inr \<lparr>im_source = ''1.png'', im_mode = ''RGB'', im_size = (1, 1)\<rparr>"
  "image_open sample_env ''2.png''
     = Inr \<lparr>im_source = ''2.png'', im_mode = ''RGB'', im_size = (1, 1)\<rparr>"
  "image_open sample_env ''3.png''
     = Inr \<lparr>im_source = ''3.png'', im_mode = ''RGB'', im_size = (1, 1)\<rparr>"
  "image_open sample_env ''4.png''
     = Inr \<lparr>im_source = ''4.png'', im_mode = ''RGB'', im_size = (1, 1)\<rparr>"
  by (simp_all add: sample_env_def)

lemma sample_json:
  "read_json sample_env ''missing.json'' = Inl FileNotFoundError"
  "read_json sample_env ''broken.json'' = Inl JSONDecodeError"
  "read_json sample_env ''data.json'' = Inr (record_set [''A'', ''B''] [[''1'', ''2'']])"
  by (simp_all add: sample_env_def)

lemma sample_run:
  "result (create_composite_image_with_gradient sample_env ''logo.png'' ''1.png'' ''2.png''
             ''3.png'' ''4.png'' ''out'' ''font.ttf'' ''data.json'')
   = Inr ''out/gradient_flowers_composite_image.png''"
proof -
  have lj: "load_json_file sample_env ''data.json''
              = ([], Inr (record_set [''A'', ''B''] [[''1'', ''2'']]))"
    by (simp add: load_json_file_def sample_json)
  have len: "length [''A'', ''B''] \<le> length col_widths" by (simp add: col_widths_def)
  have fit: "fits (length col_widths) [[''1'', ''2'']]" by (simp add: col_widths_def)
  from draw_table_fits[OF sample_font record_set_lookups len fit]
  have dt: "draw_table sample_env d x y (record_set [''A'', ''B''] [[''1'', ''2'']]) col_widths rh
              ''font.ttf''
            = (d @ spec_table x y col_widths rh (''font.ttf'', 16) [''A'', ''B''] [[''1'', ''2'']],
               None)" for d x y rh
    by (simp only: record_set_def)
  have sv: "save_image sample_env p = None" for p by (simp add: sample_env_def)
  show ?thesis
    by (simp add: create_composite_image_with_gradient_def hex_to_rgb_blue hex_to_rgb_orange Let_def
        sample_images paste_four[OF sample_images(2-5)] table_top_left_y_eq lj dt sv)
qed

text \<open>
  Claim C1, at a path that names no file and at a file that is not JSON.
  \<open>load_json_file\<close> returns the empty dictionary, which is not the record set without
  columns and rows; \<open>draw_table\<close> raises \<open>KeyError\<close> on it before it draws, where it would
  draw nothing and return on the empty record set; so the composition ends with
  \<open>KeyError\<close> and saves nothing, where the same run with a table file returns the path.
\<close>

theorem missing_json_aborts_composition:
  "snd (load_json_file sample_env ''missing.json'') = Inr (JObj [])
   \<and> snd (load_json_file sample_env ''broken.json'') = Inr (JObj [])
   \<and> JObj [] \<noteq> record_set [] []
   \<and> draw_table sample_env d x y (JObj []) cw rh ''font.ttf'' = (d, Some KeyError)
   \<and> draw_table sample_env d x y (record_set [] []) cw rh ''font.ttf'' = (d, None)
   \<and> result (create_composite_image_with_gradient sample_env ''logo.png'' ''1.png'' ''2.png''
               ''3.png'' ''4.png'' ''out'' ''font.ttf'' ''missing.json'') = Inl KeyError
   \<and> result (create_composite_image_with_gradient sample_env ''logo.png'' ''1.png'' ''2.png''
               ''3.png'' ''4.png'' ''out'' ''font.ttf'' ''broken.json'') = Inl KeyError
   \<and> result (create_composite_image_with_gradient sample_env ''logo.png'' ''1.png'' ''2.png''
               ''3.png'' ''4.png'' ''out'' ''font.ttf'' ''data.json'')
       = Inr ''out/gradient_flowers_composite_image.png''"
proof -
  have m: "read_json sample_env ''missing.json'' = Inl FileNotFoundError
           \<or> read_json sample_env ''missing.json'' = Inl JSONDecodeError"
    and b: "read_json sample_env ''broken.json'' = Inl FileNotFoundError
           \<or> read_json sample_env ''broken.json'' = Inl JSONDecodeError"
    by (simp_all add: sample_json)
  note c1 = load_json_file_handled[OF m] and c2 = load_json_file_handled[OF b]
  have c3: "JObj [] \<noteq> record_set [] []" by (simp add: record_set_def)
  note c4 = draw_table_empty_dict[OF sample_font, of d x y cw rh]
    and c5 = draw_table_empty_record_set[OF sample_font, of d x y cw rh]
    and c6 = create_missing_json[OF m sample_font sample_images, of "''out''"]
    and c7 = create_missing_json[OF b sample_font sample_images, of "''out''"]
  from c1 c2 c3 c4 c5 c6 c7 sample_run show ?thesis by blast
qed

text \<open>
  Claim C2, at a logo of 100 by 100 pixels, which the thumbnail leaves as it is.  The logo
  is pasted at \<open>(256, -10)\<close>, the corner of the centred box of 180 pixels, with itself as
  the mask; centred on the canvas of width 692 it would be pasted at x = 296.
\<close>

theorem logo_pasted_off_centre:
  "logo_position = (256, - 10)
   \<and> im_size (thumbnail sample_env
        (convert \<lparr>im_source = ''logo.png'', im_mode = ''RGB'', im_size = (100, 100)\<rparr> ''RGBA'')
        (logo_size, logo_size)) = (100, 100)
   \<and> (\<exists>rest. drawn (create_composite_image_with_gradient sample_env ''logo.png'' ''1.png''
                 ''2.png'' ''3.png'' ''4.png'' ''out'' ''font.ttf'' ''data.json'')
        = draw_flower sample_env
            (draw_flower sample_env
               (draw_gradient [] width height (172, 203, 242) (253, 153, 101))
               (margin + outer_radius) (margin + outer_radius) flower_scale)
            (width - margin - outer_radius) (margin + outer_radius) flower_scale
          @ Paste \<lparr>im_source = ''logo.png'', im_mode = ''RGBA'', im_size = (100, 100)\<rparr>
              (256, - 10)
              (Some \<lparr>im_source = ''logo.png'', im_mode = ''RGBA'', im_size = (100, 100)\<rparr>)
            # rest)
   \<and> (width - 100) div 2 = 296"
proof -
  have th: "thumbnail sample_env
        (convert \<lparr>im_source = ''logo.png'', im_mode = ''RGB'', im_size = (100, 100)\<rparr> ''RGBA'')
        (logo_size, logo_size)
      = \<lparr>im_source = ''logo.png'', im_mode = ''RGBA'', im_size = (100, 100)\<rparr>"
    by (simp add: thumbnail_def convert_def sample_env_def sample_thumbnail_size_def logo_size_def)
  from create_after_logo[OF sample_images(1), of "''1.png''" "''2.png''" "''3.png''" "''4.png''"
      "''out''" "''font.ttf''" "''data.json''"]
  show ?thesis by (simp add: th logo_position_eq width_def)
qed

section \<open>The table on the canvas\<close>

lemma extend_other:
  "\<forall>op \<in> set ops. \<forall>x0 y0 x1 y1 f c. op \<noteq> Rectangle x0 y0 x1 y1 f c \<Longrightarrow>
   foldl extend acc ops = acc"
proof (induction ops arbitrary: acc)
  case Nil
  then show ?case by simp
next
  case (Cons op ops)
  have "extend acc op = acc" using Cons.prems by (cases op; cases acc) auto
  then show ?case using Cons by simp
qed

lemma extend_row:
  assumes "length cells \<le> 2"
  shows "foldl extend (Some (71, 621)) (spec_row 71 y [200, 350] rh fnt fill r cells)
           = Some (71, 621)"
proof -
  from assms consider "cells = []" | a where "cells = [a]" | a b where "cells = [a, b]"
    by (cases cells; cases "tl cells"; cases "tl (tl cells)") auto
  then show ?thesis
    by cases (simp_all add: spec_row_def spec_cell_def Let_def)
qed

lemma extend_rows:
  "fits 2 rows \<Longrightarrow>
   foldl extend (Some (71, 621))
     (concat (map (\<lambda>rr. spec_row 71 y [200, 350] rh fnt data_fill (Suc (fst rr)) (snd rr))
                (enumerate n rows)))
     = Some (71, 621)"
  by (induction rows arbitrary: n) (simp_all add: extend_row)

lemma x_extent_table:
  assumes "length cols = 2" and "fits 2 rows"
  shows "x_extent (spec_table 71 y [200, 350] rh fnt cols rows) = Some (71, 621)"
proof -
  from assms(1) obtain a b where cols: "cols = [a, b]"
    by (cases cols; cases "tl cols"; cases "tl (tl cols)") auto
  have "foldl extend None (spec_row 71 y [200, 350] rh fnt header_fill 0 [a, b])
          = Some (71, 621)"
    by (simp add: spec_row_def spec_cell_def Let_def)
  then show ?thesis
    by (simp add: x_extent_def spec_table_def cols extend_rows[OF assms(2)])
qed

lemma x_extent_append_other:
  "\<forall>op \<in> set ops. \<forall>x0 y0 x1 y1 f c. op \<noteq> Rectangle x0 y0 x1 y1 f c \<Longrightarrow>
   x_extent (ops @ rest) = x_extent rest"
  by (simp add: x_extent_def extend_other)

lemma create_run:
  assumes logo: "image_open e logo_path = Inr im"
    and imgs: "image_open e p1 = Inr i1" "image_open e p2 = Inr i2"
      "image_open e p3 = Inr i3" "image_open e p4 = Inr i4"
    and font: "truetype e font_path"
    and js: "read_json e filepath = Inr (JObj items)"
    and cols: "map_of items ''columns'' = Some (JArr (map JStr cols))"
    and rows: "map_of items ''data'' = Some (JArr (map (\<lambda>row. JArr (map JStr row)) rows))"
    and len: "length cols \<le> length col_widths"
    and fit: "fits (length col_widths) rows"
  shows "drawn (create_composite_image_with_gradient e logo_path p1 p2 p3 p4 path_out
                  font_path filepath)
     = (draw_flower e
         (draw_flower e (draw_gradient [] width height (172, 203, 242) (253, 153, 101))
            (margin + outer_radius) (margin + outer_radius) flower_scale)
         (width - margin - outer_radius) (margin + outer_radius) flower_scale
       @ [Paste (thumbnail e (convert im ''RGBA'') (logo_size, logo_size)) logo_position
           (Some (thumbnail e (convert im ''RGBA'') (logo_size, logo_size))),
          Paste (resize (convert i1 ''RGBA'') placeholder_size) (35, 137) None,
          Paste (resize (convert i2 ''RGBA'') placeholder_size) (35, 340) None,
          Paste (resize (convert i3 ''RGBA'') placeholder_size) (357, 137) None,
          Paste (resize (convert i4 ''RGBA'') placeholder_size) (357, 340) None])
       @ spec_table table_top_left_x 543 col_widths row_height (font_path, 16) cols rows"
proof -
  have lj: "load_json_file e filepath = ([], Inr (JObj items))"
    by (simp add: load_json_file_def js)
  note dt = draw_table_fits[OF font cols rows len fit]
  show ?thesis
    using logo
    by (simp add: create_composite_image_with_gradient_def hex_to_rgb_blue hex_to_rgb_orange Let_def
        paste_four[OF imgs] table_top_left_y_eq lj dt split: option.splits)
qed

lemma before_table_other:
  "\<forall>op \<in> set (draw_flower e
         (draw_flower e (draw_gradient [] w h t b) x1 y1 s1) x2 y2 s2
       @ [Paste l lp lm, Paste a1 q1 None, Paste a2 q2 None, Paste a3 q3 None, Paste a4 q4 None]).
     \<forall>x0 y0 x1 y1 f c. op \<noteq> Rectangle x0 y0 x1 y1 f c"
  by (auto simp: draw_flower_calls draw_gradient_eq petal_def Let_def)


lemma create_run_saved:
  assumes logo: "image_open e logo_path = Inr im"
    and imgs: "image_open e p1 = Inr i1" "image_open e p2 = Inr i2"
      "image_open e p3 = Inr i3" "image_open e p4 = Inr i4"
    and font: "truetype e font_path"
    and js: "read_json e filepath = Inr (JObj items)"
    and cols: "map_of items ''columns'' = Some (JArr (map JStr cols))"
    and rows: "map_of items ''data'' = Some (JArr (map (\<lambda>row. JArr (map JStr row)) rows))"
    and len: "length cols \<le> length col_widths"
    and fit: "fits (length col_widths) rows"
    and sv: "save_image e (path_out @ ''/gradient_flowers_composite_image.png'') = None"
  shows "result (create_composite_image_with_gradient e logo_path p1 p2 p3 p4 path_out
                  font_path filepath)
     = Inr (path_out @ ''/gradient_flowers_composite_image.png'')"
proof -
  have lj: "load_json_file e filepath = ([], Inr (JObj items))"
    by (simp add: load_json_file_def js)
  note dt = draw_table_fits[OF font cols rows len fit]
  show ?thesis
    using logo
    by (simp add: create_composite_image_with_gradient_def hex_to_rgb_blue hex_to_rgb_orange Let_def
        paste_four[OF imgs] table_top_left_y_eq lj dt sv)
qed

text \<open>
  Claim C10, amended.  The procedure passes the anchor \<open>(width - sum(col_widths)) // 2\<close>,
  which is 71, to \<open>draw_table\<close>.  In a run where the images and the font load and the file
  holds a record set of strings with as many columns as there are column widths, two, and
  rows that fit, the canvas is the gradient, the flowers, the logo and the four
  placeholders followed by the table at (71, 543); the table's rectangles, the only ones
  on the canvas, span the columns 71 to 621, so the gaps to the left and the right edge
  of the canvas of width 692 are both 71.
\<close>

theorem table_drawn_centred:
  assumes "image_open e logo_path = Inr im"
    and "image_open e p1 = Inr i1" and "image_open e p2 = Inr i2"
    and "image_open e p3 = Inr i3" and "image_open e p4 = Inr i4"
    and "truetype e font_path"
    and "read_json e filepath = Inr (JObj items)"
    and "map_of items ''columns'' = Some (JArr (map JStr cols))"
    and "map_of items ''data'' = Some (JArr (map (\<lambda>row. JArr (map JStr row)) rows))"
    and "length cols = length col_widths"
    and "fits (length col_widths) rows"
  shows "table_top_left_x = (width - sum_list col_widths) div 2
   \<and> table_top_left_x = 71
   \<and> drawn (create_composite_image_with_gradient e logo_path p1 p2 p3 p4 path_out
              font_path filepath)
       = (draw_flower e
            (draw_flower e (draw_gradient [] width height (172, 203, 242) (253, 153, 101))
               (margin + outer_radius) (margin + outer_radius) flower_scale)
            (width - margin - outer_radius) (margin + outer_radius) flower_scale
          @ [Paste (thumbnail e (convert im ''RGBA'') (logo_size, logo_size)) logo_position
               (Some (thumbnail e (convert im ''RGBA'') (logo_size, logo_size))),
             Paste (resize (convert i1 ''RGBA'') placeholder_size) (35, 137) None,
             Paste (resize (convert i2 ''RGBA'') placeholder_size) (35, 340) None,
             Paste (resize (convert i3 ''RGBA'') placeholder_size) (357, 137) None,
             Paste (resize (convert i4 ''RGBA'') placeholder_size) (357, 340) None])
         @ spec_table table_top_left_x 543 col_widths row_height (font_path, 16) cols rows
   \<and> x_extent (spec_table table_top_left_x 543 col_widths row_height (font_path, 16) cols rows)
       = Some (71, 621)
   \<and> x_extent (drawn (create_composite_image_with_gradient e logo_path p1 p2 p3 p4 path_out
                        font_path filepath))
       = Some (71, 621)
   \<and> \<bar>(71 - 0) - (width - 621)\<bar> \<le> 1"
proof -
  have len: "length cols \<le> length col_widths" using assms(10) by simp
  note run = create_run[OF assms(1-9) len assms(11), of path_out]
  have n: "length col_widths = 2" by (simp add: col_widths_def)
  have two: "length cols = 2" "fits 2 rows" using assms(10,11) by (simp_all only: n)
  have ext: "x_extent (spec_table table_top_left_x 543 col_widths row_height (font_path, 16)
                         cols rows) = Some (71, 621)"
    using x_extent_table[OF two] by (simp add: table_top_left_x_eq col_widths_def)
  have all: "x_extent (drawn (create_composite_image_with_gradient e logo_path p1 p2 p3 p4
                                path_out font_path filepath)) = Some (71, 621)"
    by (simp only: run x_extent_append_other[OF before_table_other] ext)
  have x: "table_top_left_x = (width - sum_list col_widths) div 2"
    by (simp add: table_top_left_x_def)
  have g: "\<bar>(71 - 0) - (width - 621)\<bar> \<le> 1" by (simp add: width_def)
  from x table_top_left_x_eq run ext all g show ?thesis by blast
qed

lemma sample_narrow:
  "read_json sample_env ''narrow.json'' = Inr (record_set [''A''] [[''1'']])"
  by (simp add: sample_env_def)

text \<open>
  Claim C10, witness: the run of the sample environment on the table of two columns.
\<close>

theorem table_drawn_centred_witness:
  "length [''A'', ''B''] = length col_widths
   \<and> fits (length col_widths) [[''1'', ''2'']]
   \<and> table_top_left_x = 71
   \<and> x_extent (spec_table table_top_left_x 543 col_widths row_height (''font.ttf'', 16)
                 [''A'', ''B''] [[''1'', ''2'']]) = Some (71, 621)
   \<and> x_extent (drawn (create_composite_image_with_gradient sample_env ''logo.png'' ''1.png''
                        ''2.png'' ''3.png'' ''4.png'' ''out'' ''font.ttf'' ''data.json''))
       = Some (71, 621)"
proof -
  have len: "length [''A'', ''B''] = length col_widths" by (simp add: col_widths_def)
  have fit: "fits (length col_widths) [[''1'', ''2'']]" by (simp add: col_widths_def)
  from table_drawn_centred[OF sample_images sample_font
      sample_json(3)[unfolded record_set_def] record_set_lookups len fit, of "''out''"] len fit
  show ?thesis by blast
qed

text \<open>
  Claim C10, counterexample.  As stated the claim fails for a record set with fewer
  columns than column widths: the
  table of one column is drawn from the same anchor and spans the columns 71 to 271, so
  the gap on the left is 71 and the gap on the right is 421.
\<close>

theorem narrow_table_off_centre_counterexample:
  "read_json sample_env ''narrow.json'' = Inr (record_set [''A''] [[''1'']])
   \<and> result (create_composite_image_with_gradient sample_env ''logo.png'' ''1.png''
               ''2.png'' ''3.png'' ''4.png'' ''out'' ''font.ttf'' ''narrow.json'')
       = Inr ''out/gradient_flowers_composite_image.png''
   \<and> x_extent (drawn (create_composite_image_with_gradient sample_env ''logo.png'' ''1.png''
                        ''2.png'' ''3.png'' ''4.png'' ''out'' ''font.ttf'' ''narrow.json''))
       = Some (71, 271)
   \<and> width - 271 = 421
   \<and> \<not> \<bar>(71 - 0) - (width - 271)\<bar> \<le> 1"
proof -
  have len: "length [''A''] \<le> length col_widths" by (simp add: col_widths_def)
  have fit: "fits (length col_widths) [[''1'']]" by (simp add: col_widths_def)
  have sv: "save_image sample_env (''out'' @ ''/gradient_flowers_composite_image.png'') = None"
    by (simp add: sample_env_def)
  note js = sample_narrow[unfolded record_set_def]
  note run = create_run[OF sample_images sample_font js record_set_lookups len fit, of "''out''"]
  have res: "result (create_composite_image_with_gradient sample_env ''logo.png'' ''1.png''
               ''2.png'' ''3.png'' ''4.png'' ''out'' ''font.ttf'' ''narrow.json'')
       = Inr ''out/gradient_flowers_composite_image.png''"
    using create_run_saved[OF sample_images sample_font js record_set_lookups len fit sv]
    by simp
  have ext: "x_extent (spec_table table_top_left_x 543 col_widths row_height (''font.ttf'', 16)
                         [''A''] [[''1'']]) = Some (71, 271)"
    by (simp add: x_extent_def spec_table_def spec_row_def spec_cell_def Let_def
        table_top_left_x_eq col_widths_def)
  have all: "x_extent (drawn (create_composite_image_with_gradient sample_env ''logo.png''
               ''1.png'' ''2.png'' ''3.png'' ''4.png'' ''out'' ''font.ttf'' ''narrow.json''))
       = Some (71, 271)"
    by (simp only: run x_extent_append_other[OF before_table_other] ext)
  have g: "width - 271 = 421" "\<not> \<bar>(71 - 0) - (width - 271)\<bar> \<le> 1" by (simp_all add: width_def)
  from sample_narrow res all g show ?thesis by blast
qed

end
